theory Spec2Isabelle
  imports Complex_Main "HOL-Library.Sublist"
begin

section \<open>Data model\<close>

text \<open>
  A track point as \<^verbatim>\<open>gpxpy\<close> hands it to \<^verbatim>\<open>main.py\<close>: the code reads its
  \<^verbatim>\<open>latitude\<close> and \<^verbatim>\<open>longitude\<close> only. In the two sampling passes a Python float is
  read as the real number it denotes, and sums and comparisons are the exact ones. The
  fetcher, which formats floats and multiplies one, works on \<open>py_float\<close> below.
\<close>

record gpx_point =
  latitude :: real
  longitude :: real

type_synonym latlon = "real \<times> real"

definition coords :: "gpx_point \<Rightarrow> latlon" where
  "coords p = (latitude p, longitude p)"

text \<open>
  \<^verbatim>\<open>geodesic(a, b).km\<close> belongs to the \<^verbatim>\<open>geopy\<close> library, not to this program. Every
  function that calls it takes it as the parameter \<open>geodesic_km\<close>, applied to the two
  \<open>(latitude, longitude)\<close> tuples the code builds, and assumed to return a number.
\<close>

type_synonym distance_fn = "latlon \<Rightarrow> latlon \<Rightarrow> real"

text \<open>A distance marker: \<^verbatim>\<open>(lat, lon, round(total_distance))\<close>.\<close>

type_synonym marker = "real \<times> real \<times> int"

definition marker_km :: "marker \<Rightarrow> int" where
  "marker_km m = snd (snd m)"

text \<open>The exceptions that the modelled statements of \<^verbatim>\<open>main.py\<close> can raise.\<close>

datatype py_error =
  AttributeError | IndexError | KeyError | TypeError | OverflowError | ValueError

text \<open>
  What \<^verbatim>\<open>response.json()\<close> returns, and so what a locker record is: a Python value
  decoded from JSON. A \<^verbatim>\<open>dict\<close> is the list of its items, with distinct keys.
\<close>

datatype json =
    JNull
  | JBool bool
  | JNum real
  | JStr string
  | JList "json list"
  | JDict "(string \<times> json) list"

text \<open>\<^verbatim>\<open>v[key]\<close> for a string key.\<close>

fun subscript :: "json \<Rightarrow> string \<Rightarrow> py_error + json" where
  "subscript (JDict items) key =
     (case map_of items key of None \<Rightarrow> Inl KeyError | Some v \<Rightarrow> Inr v)"
| "subscript v key = Inl TypeError"

text \<open>\<^verbatim>\<open>v.get(key, default)\<close>: only a \<^verbatim>\<open>dict\<close> has the method.\<close>

fun py_get :: "json \<Rightarrow> string \<Rightarrow> json \<Rightarrow> py_error + json" where
  "py_get (JDict items) key dflt =
     (case map_of items key of None \<Rightarrow> Inr dflt | Some v \<Rightarrow> Inr v)"
| "py_get v key dflt = Inl AttributeError"

text \<open>
  The elements \<^verbatim>\<open>list.extend(v)\<close> appends: those of a list, the keys of a \<^verbatim>\<open>dict\<close>,
  the characters of a string; the other values are not iterable.
\<close>

fun py_iter :: "json \<Rightarrow> py_error + json list" where
  "py_iter (JList xs) = Inr xs"
| "py_iter (JDict items) = Inr (map (\<lambda>kv. JStr (fst kv)) items)"
| "py_iter (JStr s) = Inr (map (\<lambda>c. JStr [c]) s)"
| "py_iter v = Inl TypeError"

text \<open>
  Membership in a \<^verbatim>\<open>set\<close> needs a hashable value, and compares \<^verbatim>\<open>True\<close> and
  \<^verbatim>\<open>False\<close> equal to \<^verbatim>\<open>1\<close> and \<^verbatim>\<open>0\<close>.
\<close>

fun py_hashable :: "json \<Rightarrow> bool" where
  "py_hashable (JList xs) = False"
| "py_hashable (JDict items) = False"
| "py_hashable v = True"

fun py_key :: "json \<Rightarrow> json" where
  "py_key (JBool b) = JNum (if b then 1 else 0)"
| "py_key v = v"

text \<open>\<^verbatim>\<open>round(x)\<close> of a float: the nearest integer, a tie going to the even one.\<close>

definition py_round :: "real \<Rightarrow> int" where
  "py_round x =
     (let f = \<lfloor>x\<rfloor>; d = x - of_int f
      in if d < 1/2 then f
         else if d > 1/2 then f + 1
         else if even f then f else f + 1)"

section \<open>Floats\<close>

text \<open>
  Rounding a non-negative real to binary64, to nearest with a tie to the even
  significand. \<open>binary_exponent x\<close> is the \<open>e\<close> with \<open>2\<^sup>e \<le> x < 2\<^sup>e\<^sup>+\<^sup>1\<close>, found from
  the bit length of an integer (\<^verbatim>\<open>int.bit_length\<close>); the floats there are \<open>2\<^sup>e\<^sup>-\<^sup>5\<^sup>2\<close>
  apart, and \<open>2\<^sup>-\<^sup>1\<^sup>0\<^sup>7\<^sup>4\<close> apart below the normal range. The result is not bounded:
  the caller compares it with \<open>2\<^sup>1\<^sup>0\<^sup>2\<^sup>4\<close>.
\<close>

fun bit_length :: "nat \<Rightarrow> nat" where
  "bit_length n = (if n = 0 then 0 else Suc (bit_length (n div 2)))"

definition binary_exponent :: "real \<Rightarrow> int" where
  "binary_exponent x =
     (if 1 \<le> x then int (bit_length (nat \<lfloor>x\<rfloor>)) - 1
      else - int (bit_length (nat (\<lceil>1 / x\<rceil> - 1))))"

definition round_double :: "real \<Rightarrow> real" where
  "round_double x =
     (if x = 0 then 0
      else (let e = max (binary_exponent x) (- 1022);
                quantum = power_int 2 (e - 52)
            in of_int (py_round (x / quantum)) * quantum))"

text \<open>
  A Python float as the fetcher sees it: a finite number, with negative zero apart from
  it (\<open>Num 0\<close> is \<^verbatim>\<open>0.0\<close>, \<open>NegZero\<close> is \<^verbatim>\<open>-0.0\<close>), an infinity or NaN. \<open>Num x\<close>, for
  \<open>x\<close> of magnitude below \<open>2\<^sup>1\<^sup>0\<^sup>2\<^sup>4\<close>, is the float nearest to \<open>x\<close>: the float of value
  \<open>x\<close> when there is one, and otherwise the float that Python reads from the decimal
  \<open>x\<close>, so that \<open>Num (7/10)\<close> is the float \<^verbatim>\<open>0.7\<close>, of value \<open>6305039478318694 / 2\<^sup>5\<^sup>3\<close>.
\<close>

datatype py_float = Num real | NegZero | PosInf | NegInf | NaN

text \<open>The sign and the magnitude of a finite float.\<close>

fun finite_parts :: "py_float \<Rightarrow> (bool \<times> real) option" where
  "finite_parts (Num x) = Some (x < 0, round_double \<bar>x\<bar>)"
| "finite_parts NegZero = Some (True, 0)"
| "finite_parts v = None"

fun negative :: "py_float \<Rightarrow> bool" where
  "negative (Num x) = (x < 0)"
| "negative NegZero = True"
| "negative NegInf = True"
| "negative v = False"

definition infinity :: "bool \<Rightarrow> py_float" where
  "infinity is_neg = (if is_neg then NegInf else PosInf)"

text \<open>
  \<^verbatim>\<open>a * b\<close> on floats: the exact product of the magnitudes rounded to binary64, an
  infinity when the rounded product is out of range, a signed zero when it is zero; NaN
  from NaN and from zero times infinity.
\<close>

definition py_mul :: "py_float \<Rightarrow> py_float \<Rightarrow> py_float" where
  "py_mul a b =
     (if a = NaN \<or> b = NaN then NaN
      else case (finite_parts a, finite_parts b) of
          (Some (sa, ma), Some (sb, mb)) \<Rightarrow>
            (let p = round_double (ma * mb)
             in if 2 ^ 1024 \<le> p then infinity (sa \<noteq> sb)
                else if p = 0 then (if sa \<noteq> sb then NegZero else Num 0)
                else Num (if sa \<noteq> sb then - p else p))
        | (Some (sa, ma), None) \<Rightarrow> if ma = 0 then NaN else infinity (sa \<noteq> negative b)
        | (None, Some (sb, mb)) \<Rightarrow> if mb = 0 then NaN else infinity (negative a \<noteq> sb)
        | (None, None) \<Rightarrow> infinity (negative a \<noteq> negative b))"

text \<open>
  \<^verbatim>\<open>int(x)\<close> of a float: truncation towards zero; \<^verbatim>\<open>OverflowError\<close> on an infinity
  and \<^verbatim>\<open>ValueError\<close> on NaN.
\<close>

fun py_int :: "py_float \<Rightarrow> py_error + int" where
  "py_int (Num x) =
     Inr (if x < 0 then - \<lfloor>round_double \<bar>x\<bar>\<rfloor> else \<lfloor>round_double \<bar>x\<bar>\<rfloor>)"
| "py_int NegZero = Inr 0"
| "py_int PosInf = Inl OverflowError"
| "py_int NegInf = Inl OverflowError"
| "py_int NaN = Inl ValueError"

section \<open>Configuration\<close>

definition TRAIL_CHUNK :: real where
  "TRAIL_CHUNK = 500"

definition SEARCH_RADIUS_KM :: real where
  "SEARCH_RADIUS_KM = 2"

definition DISTANCE_MARKERS_EACH :: real where
  "DISTANCE_MARKERS_EACH = 10"

section \<open>Distance markers: \<^verbatim>\<open>get_distance_markers\<close>\<close>

text \<open>
  The body of the loop of lines 46 to 56, over \<^verbatim>\<open>all_points[1:]\<close>. The state is
  \<^verbatim>\<open>markers\<close>, \<^verbatim>\<open>total_distance\<close> and \<^verbatim>\<open>last_point\<close>; \<^verbatim>\<open>markers[-1][2]\<close> is read
  only when \<^verbatim>\<open>markers\<close> is not empty.
\<close>

fun markers_loop ::
  "distance_fn \<Rightarrow> real \<Rightarrow> gpx_point list \<Rightarrow> marker list \<Rightarrow> real \<Rightarrow> gpx_point \<Rightarrow> marker list"
  where
  "markers_loop geodesic_km interval_km [] markers total_distance last_point = markers"
| "markers_loop geodesic_km interval_km (point # rest) markers total_distance last_point =
     (let segment_distance = geodesic_km (coords last_point) (coords point);
          total = total_distance + segment_distance;
          markers' =
            (if length markers = 0 \<or> total - of_int (marker_km (last markers)) \<ge> interval_km
             then markers @ [(latitude point, longitude point, py_round total)]
             else markers)
      in markers_loop geodesic_km interval_km rest markers' total point)"

text \<open>The function once the file is parsed and flattened into \<^verbatim>\<open>all_points\<close>.\<close>

definition get_distance_markers :: "distance_fn \<Rightarrow> gpx_point list \<Rightarrow> real \<Rightarrow> marker list" where
  "get_distance_markers geodesic_km all_points interval_km =
     (case all_points of
        [] \<Rightarrow> []
      | first # rest \<Rightarrow> markers_loop geodesic_km interval_km rest [] 0 first)"

section \<open>Coarse sampling: \<^verbatim>\<open>parse_gpx_points_every_n_km\<close>\<close>

text \<open>
  The body of the loop of lines 80 to 91. The state is \<^verbatim>\<open>sampled_points\<close>,
  \<^verbatim>\<open>last_added\<close> and \<^verbatim>\<open>distance_accumulator\<close>. The segment is measured from
  \<^verbatim>\<open>last_added\<close>, which changes only when a point is appended.
\<close>

fun coarse_loop ::
  "distance_fn \<Rightarrow> real \<Rightarrow> gpx_point list \<Rightarrow> gpx_point list \<Rightarrow> gpx_point \<Rightarrow> real
     \<Rightarrow> gpx_point list" where
  "coarse_loop geodesic_km interval_km [] sampled_points last_added distance_accumulator =
     sampled_points"
| "coarse_loop geodesic_km interval_km (point # rest) sampled_points last_added
       distance_accumulator =
     (let segment_distance = geodesic_km (coords last_added) (coords point);
          acc = distance_accumulator + segment_distance
      in if acc \<ge> interval_km
         then coarse_loop geodesic_km interval_km rest (sampled_points @ [point]) point 0
         else coarse_loop geodesic_km interval_km rest sampled_points last_added acc)"

definition parse_gpx_points_every_n_km ::
  "distance_fn \<Rightarrow> gpx_point list \<Rightarrow> real \<Rightarrow> latlon list" where
  "parse_gpx_points_every_n_km geodesic_km all_points interval_km =
     (case all_points of
        [] \<Rightarrow> []
      | first # rest \<Rightarrow>
          map coords (coarse_loop geodesic_km interval_km rest [first] first 0))"

section \<open>The locker fetcher: \<^verbatim>\<open>get_nearby_parcel_lockers\<close>\<close>

text \<open>
  A float under the format \<^verbatim>\<open>.6f\<close>. A finite float gives its sign (also that of
  negative zero, and of a negative number that rounds to zero), the integer part, a point
  and six digits, of the magnitude rounded to the nearest multiple of \<open>10\<^sup>-\<^sup>6\<close> (a tie
  to the even one); the others give \<^verbatim>\<open>inf\<close>, \<^verbatim>\<open>-inf\<close> and \<^verbatim>\<open>nan\<close>.
\<close>

definition digit_char :: "nat \<Rightarrow> char" where
  "digit_char d = ''0123456789'' ! d"

fun decimal :: "nat \<Rightarrow> string" where
  "decimal n =
     (if n < 10 then [digit_char n] else decimal (n div 10) @ [digit_char (n mod 10)])"

definition fraction6 :: "nat \<Rightarrow> string" where
  "fraction6 m = map (\<lambda>i. digit_char (m div 10 ^ i mod 10)) [5, 4, 3, 2, 1, 0]"

definition format_6f :: "py_float \<Rightarrow> string" where
  "format_6f x =
     (case finite_parts x of
        Some (is_neg, magnitude) \<Rightarrow>
          (let n = nat (py_round (magnitude * 1000000))
           in (if is_neg then ''-'' else '''') @ decimal (n div 1000000) @ ''.'' @
              fraction6 (n mod 1000000))
      | None \<Rightarrow> (if x = NaN then ''nan'' else if x = NegInf then ''-inf'' else ''inf''))"

datatype param_value = PStr string | PInt int

record request =
  url :: string
  params :: "(string \<times> param_value) list"
  headers :: "(string \<times> string) list"

text \<open>
  The arguments of \<^verbatim>\<open>requests.get\<close> built in lines 105 to 116, or the exception that
  \<^verbatim>\<open>int(radius_km * 1000)\<close> raises; \<^verbatim>\<open>1000\<close> is the float \<^verbatim>\<open>1000.0\<close> there.
\<close>

definition locker_request ::
  "py_float \<Rightarrow> py_float \<Rightarrow> py_float \<Rightarrow> string \<Rightarrow> py_error + request" where
  "locker_request lat lon radius_km token =
     (let relative_point = format_6f lat @ '','' @ format_6f lon
      in case py_int (py_mul radius_km (Num 1000)) of
           Inl e \<Rightarrow> Inl e
         | Inr max_distance \<Rightarrow>
             Inr \<lparr>url = ''https://api-shipx-pl.easypack24.net/v1/points'',
                  params = [(''type'', PStr ''parcel_locker''),
                            (''relative_point'', PStr relative_point),
                            (''max_distance'', PInt max_distance),
                            (''sort'', PStr ''distance'')],
                  headers = [(''Authorization'', ''Bearer '' @ token),
                             (''Accept'', ''application/json'')]\<rparr>)"

text \<open>
  What \<^verbatim>\<open>requests.get\<close> does with a request is the environment's: either a response,
  with its status code, its text and the value its body decodes to, or a
  \<^verbatim>\<open>requests.RequestException\<close> carrying a message. A response whose body is not JSON is
  outside the model.
\<close>

datatype http_outcome =
    Response nat string json
  | RequestException string

fun is_failure :: "http_outcome \<Rightarrow> bool" where
  "is_failure (Response status_code content data) = (status_code \<noteq> 200)"
| "is_failure (RequestException e) = True"

text \<open>The lines the fetcher prints.\<close>

datatype log_line =
    DebugStatus nat
  | ErrorStatus nat
  | ErrorContent string
  | ExceptionLine string

text \<open>
  The fetcher: the request is built before the \<^verbatim>\<open>try\<close>, so an exception of
  \<^verbatim>\<open>int\<close> leaves the function; otherwise the result is what was printed and what is
  returned.
\<close>

definition get_nearby_parcel_lockers ::
  "(request \<Rightarrow> http_outcome) \<Rightarrow> py_float \<Rightarrow> py_float \<Rightarrow> py_float \<Rightarrow> string
     \<Rightarrow> py_error + log_line list \<times> json" where
  "get_nearby_parcel_lockers requests_get lat lon radius_km token =
     (case locker_request lat lon radius_km token of
        Inl e \<Rightarrow> Inl e
      | Inr request \<Rightarrow>
          Inr (case requests_get request of
                 Response status_code content data \<Rightarrow>
                   if status_code = 200 then ([DebugStatus status_code], data)
                   else ([DebugStatus status_code, ErrorStatus status_code,
                          ErrorContent content],
                         JList [])
               | RequestException e \<Rightarrow> ([ExceptionLine e], JList [])))"

section \<open>The map: \<^verbatim>\<open>create_map_with_lockers\<close>\<close>

text \<open>
  The \<^verbatim>\<open>folium\<close> objects are kept as data: the map with its centre and zoom, and what
  was added to it, in order. A locker marker holds the latitude, the longitude, the name
  and the description that the code read from the record.
\<close>

datatype map_child =
    PolyLine "latlon list"
  | LockerMarker json json json json
  | DistanceLabel real real int

record folium_map =
  location :: latlon
  zoom_start :: nat
  children :: "map_child list"

text \<open>The loop of lines 153 to 159, with the reads in the order the code makes them.\<close>

fun locker_markers :: "json list \<Rightarrow> py_error + map_child list" where
  "locker_markers [] = Inr []"
| "locker_markers (locker # rest) =
     (case subscript locker ''location'' of Inl e \<Rightarrow> Inl e | Inr loc \<Rightarrow>
      case subscript loc ''latitude'' of Inl e \<Rightarrow> Inl e | Inr lat \<Rightarrow>
      case subscript loc ''longitude'' of Inl e \<Rightarrow> Inl e | Inr lon \<Rightarrow>
      case subscript locker ''name'' of Inl e \<Rightarrow> Inl e | Inr name \<Rightarrow>
      case py_get locker ''location_description'' (JStr '''') of Inl e \<Rightarrow> Inl e | Inr d \<Rightarrow>
      case locker_markers rest of Inl e \<Rightarrow> Inl e | Inr ms \<Rightarrow>
        Inr (LockerMarker lat lon name d # ms))"

definition create_map_with_lockers ::
  "latlon list \<Rightarrow> json list \<Rightarrow> marker list \<Rightarrow> py_error + folium_map" where
  "create_map_with_lockers route_points lockers distance_markers =
     (let i = length route_points div 2
      in if i < length route_points
         then (case locker_markers lockers of
                 Inl e \<Rightarrow> Inl e
               | Inr pins \<Rightarrow>
                   Inr \<lparr>location = route_points ! i, zoom_start = 10,
                        children = PolyLine route_points # pins @
                          map (\<lambda>(lat, lon, distance_km). DistanceLabel lat lon distance_km)
                            distance_markers\<rparr>)
         else Inl IndexError)"

section \<open>The run: \<^verbatim>\<open>main\<close>\<close>

text \<open>
  The loop of lines 180 to 184. The call of index \<open>i\<close> is answered by
  \<open>requests_get i\<close>, so that two calls with the same request may be answered differently.
  The result is the lines printed by the fetcher and either the exception that ended the
  loop or \<^verbatim>\<open>all_lockers\<close>.
\<close>

fun fetch_loop ::
  "(nat \<Rightarrow> request \<Rightarrow> http_outcome) \<Rightarrow> string \<Rightarrow> nat \<Rightarrow> latlon list \<Rightarrow> json list \<Rightarrow> log_line list
     \<Rightarrow> log_line list \<times> (py_error + json list)" where
  "fetch_loop requests_get token index [] all_lockers lines = (lines, Inr all_lockers)"
| "fetch_loop requests_get token index ((lat, lon) # rest) all_lockers lines =
     (case get_nearby_parcel_lockers (requests_get index) (Num lat) (Num lon)
             (Num SEARCH_RADIUS_KM) token of
        Inl e \<Rightarrow> (lines, Inl e)
      | Inr (printed, lockers) \<Rightarrow>
          (let lines' = lines @ printed
           in case py_get lockers ''items'' (JList []) of
                Inl e \<Rightarrow> (lines', Inl e)
              | Inr found \<Rightarrow>
                  (case py_iter found of
                     Inl e \<Rightarrow> (lines', Inl e)
                   | Inr xs \<Rightarrow>
                       fetch_loop requests_get token (Suc index) rest (all_lockers @ xs)
                         lines')))"

text \<open>The loop of lines 188 to 193, with the set \<^verbatim>\<open>seen\<close> and the list \<^verbatim>\<open>unique_lockers\<close>.\<close>

fun unique_loop :: "json list \<Rightarrow> json set \<Rightarrow> json list \<Rightarrow> py_error + json list" where
  "unique_loop [] seen unique_lockers = Inr unique_lockers"
| "unique_loop (locker # rest) seen unique_lockers =
     (case subscript locker ''name'' of
        Inl e \<Rightarrow> Inl e
      | Inr name \<Rightarrow>
          if \<not> py_hashable name then Inl TypeError
          else if py_key name \<notin> seen
          then unique_loop rest (insert (py_key name) seen) (unique_lockers @ [locker])
          else unique_loop rest seen unique_lockers)"

definition unique_lockers :: "json list \<Rightarrow> py_error + json list" where
  "unique_lockers all_lockers = unique_loop all_lockers {} []"

text \<open>
  \<^verbatim>\<open>main\<close>, from the token and the points read from the two files to the map that is
  saved, or the exception that ends the run.
\<close>

definition main ::
  "distance_fn \<Rightarrow> (nat \<Rightarrow> request \<Rightarrow> http_outcome) \<Rightarrow> string \<Rightarrow> gpx_point list
     \<Rightarrow> log_line list \<times> (py_error + folium_map)" where
  "main geodesic_km requests_get token all_points =
     (let route_points = parse_gpx_points_every_n_km geodesic_km all_points TRAIL_CHUNK;
          (lines, fetched) = fetch_loop requests_get token 0 route_points [] []
      in case fetched of
           Inl e \<Rightarrow> (lines, Inl e)
         | Inr all_lockers \<Rightarrow>
             (case unique_lockers all_lockers of
                Inl e \<Rightarrow> (lines, Inl e)
              | Inr unique \<Rightarrow>
                  (let distance_markers =
                         get_distance_markers geodesic_km all_points DISTANCE_MARKERS_EACH
                   in (lines, create_map_with_lockers route_points unique distance_markers))))"

section \<open>Reference notions\<close>

text \<open>
  The length of a track: the sum of the distances between consecutive raw points.
\<close>

fun track_distance :: "distance_fn \<Rightarrow> gpx_point list \<Rightarrow> real" where
  "track_distance g [] = 0"
| "track_distance g [p] = 0"
| "track_distance g (p # q # ps) = g (coords p) (coords q) + track_distance g (q # ps)"

text \<open>
  The marker pass as the specification words it: a point is accepted when its total
  distance since the start, minus the total distance that the last accepted marker had
  when it was accepted, reaches the interval. The state carries that total
  (\<open>accepted_total\<close>) beside the markers. The specification names no baseline while no
  marker has been accepted; the point is then accepted, as in the code, so that the two
  passes differ in the baseline only.
\<close>

fun claimed_markers_loop ::
  "distance_fn \<Rightarrow> real \<Rightarrow> gpx_point list \<Rightarrow> marker list \<Rightarrow> real option \<Rightarrow> real \<Rightarrow> gpx_point
     \<Rightarrow> marker list" where
  "claimed_markers_loop g interval_km [] markers accepted_total total_distance last_point =
     markers"
| "claimed_markers_loop g interval_km (point # rest) markers accepted_total total_distance
       last_point =
     (let total = total_distance + g (coords last_point) (coords point);
          accept = (case accepted_total of
                      None \<Rightarrow> True
                    | Some at_acceptance \<Rightarrow> total - at_acceptance \<ge> interval_km)
      in if accept
         then claimed_markers_loop g interval_km rest
                (markers @ [(latitude point, longitude point, py_round total)]) (Some total)
                total point
         else claimed_markers_loop g interval_km rest markers accepted_total total point)"

definition claimed_distance_markers :: "distance_fn \<Rightarrow> gpx_point list \<Rightarrow> real \<Rightarrow> marker list"
  where
  "claimed_distance_markers g all_points interval_km =
     (case all_points of
        [] \<Rightarrow> []
      | first # rest \<Rightarrow> claimed_markers_loop g interval_km rest [] None 0 first)"

text \<open>
  Reading a formatted number back: the value of a digit, the number that a string of
  digits writes, and the test that a character is a digit.
\<close>

definition digit_value :: "char \<Rightarrow> nat" where
  "digit_value c = length (takeWhile (\<lambda>d. d \<noteq> c) ''0123456789'')"

definition digits_value :: "string \<Rightarrow> nat" where
  "digits_value s = foldl (\<lambda>a c. 10 * a + digit_value c) 0 s"

definition is_digit :: "char \<Rightarrow> bool" where
  "is_digit c = (c \<in> set ''0123456789'')"


section \<open>Concrete inputs\<close>

text \<open>
  A distance to run the passes on explicit tracks. Between two points of the equator the
  geodesic of the ellipsoid is the arc of the equator, about 111.32 km for each degree of
  longitude; \<open>equator_km\<close> is that distance, and is used on points of latitude 0 only.
\<close>

definition equator_km :: distance_fn where
  "equator_km a b = 11132 / 100 * \<bar>snd a - snd b\<bar>"

definition on_equator :: "real \<Rightarrow> gpx_point" where
  "on_equator lon = \<lparr>latitude = 0, longitude = lon\<rparr>"

text \<open>A locker record as the locator returns it, reduced to the fields the code reads.\<close>

definition locker_record :: "string \<Rightarrow> real \<Rightarrow> real \<Rightarrow> json" where
  "locker_record name lat lon =
     JDict [(''name'', JStr name),
            (''location'', JDict [(''latitude'', JNum lat), (''longitude'', JNum lon)])]"

section \<open>Rounding\<close>

declare decimal.simps [simp del]

lemma marker_km_triple [simp]: "marker_km (a, b, d) = d"
  by (simp add: marker_km_def)

lemma py_round_bounds: "\<lfloor>x\<rfloor> \<le> py_round x \<and> py_round x \<le> \<lfloor>x\<rfloor> + 1"
  by (simp add: py_round_def Let_def)

lemma py_round_mono:
  assumes "x \<le> y"
  shows "py_round x \<le> py_round y"
proof (cases "\<lfloor>x\<rfloor> < \<lfloor>y\<rfloor>")
  case True
  have "py_round x \<le> \<lfloor>x\<rfloor> + 1" using py_round_bounds [of x] by simp
  also have "\<dots> \<le> \<lfloor>y\<rfloor>" using True by simp
  also have "\<dots> \<le> py_round y" using py_round_bounds [of y] by simp
  finally show ?thesis .
next
  case False
  moreover have "\<lfloor>x\<rfloor> \<le> \<lfloor>y\<rfloor>" using assms by (rule floor_mono)
  ultimately have eq: "\<lfloor>x\<rfloor> = \<lfloor>y\<rfloor>" by simp
  then have "x - of_int \<lfloor>x\<rfloor> \<le> y - of_int \<lfloor>y\<rfloor>" using assms by simp
  then show ?thesis using eq by (auto simp add: py_round_def Let_def)
qed

lemma py_round_above_half:
  assumes "of_int n + 1/2 < x"
  shows "n + 1 \<le> py_round x"
proof (cases "n + 1 \<le> \<lfloor>x\<rfloor>")
  case True
  then show ?thesis using py_round_bounds [of x] by simp
next
  case False
  have "of_int n \<le> x" using assms by simp
  then have "n \<le> \<lfloor>x\<rfloor>" by (simp add: le_floor_iff)
  with False have eq: "\<lfloor>x\<rfloor> = n" by simp
  then show ?thesis using assms by (simp add: py_round_def Let_def)
qed

lemma py_round_near: "\<bar>x - of_int (py_round x)\<bar> \<le> 1/2"
proof -
  have "of_int \<lfloor>x\<rfloor> \<le> x" "x < of_int \<lfloor>x\<rfloor> + 1" by linarith+
  then show ?thesis by (auto simp add: py_round_def Let_def)
qed

lemma py_round_nonneg: "0 \<le> x \<Longrightarrow> 0 \<le> py_round x"
proof -
  assume "0 \<le> x"
  then have "0 \<le> \<lfloor>x\<rfloor>" by simp
  then show ?thesis by (auto simp add: py_round_def Let_def)
qed

lemma equator_km_nonneg: "\<forall>a b. 0 \<le> equator_km a b"
  by (simp add: equator_km_def)

section \<open>The coarse sample\<close>

text \<open>The loop only appends, and what it appends is a subsequence of what it reads.\<close>

lemma coarse_loop_prefix:
  "\<exists>added. coarse_loop g iv ps sampled la acc = sampled @ added \<and> subseq added ps"
proof (induction ps arbitrary: sampled la acc)
  case Nil
  show ?case by simp
next
  case (Cons p ps)
  show ?case
  proof (cases "acc + g (coords la) (coords p) \<ge> iv")
    case True
    from Cons.IH [of "sampled @ [p]" p 0]
    obtain added where a: "coarse_loop g iv ps (sampled @ [p]) p 0 = (sampled @ [p]) @ added"
      and s: "subseq added ps" by blast
    have "coarse_loop g iv (p # ps) sampled la acc = sampled @ (p # added)"
      using True a by (simp add: Let_def)
    moreover have "subseq (p # added) (p # ps)"
      using s by simp
    ultimately show ?thesis by blast
  next
    case False
    from Cons.IH [of sampled la "acc + g (coords la) (coords p)"]
    obtain added where
      a: "coarse_loop g iv ps sampled la (acc + g (coords la) (coords p)) = sampled @ added"
      and s: "subseq added ps" by blast
    have "coarse_loop g iv (p # ps) sampled la acc = sampled @ added"
      using False a by (simp add: Let_def)
    moreover have "subseq added (p # ps)"
      using s by (rule list_emb_Cons)
    ultimately show ?thesis by blast
  qed
qed

text \<open>
  C6: a non-empty track gives a non-empty coarse sample whose first element is the first
  raw point; an empty track gives an empty coarse sample.
\<close>

theorem coarse_sample_first_point:
  "parse_gpx_points_every_n_km g [] iv = [] \<and>
   parse_gpx_points_every_n_km g (p # ps) iv \<noteq> [] \<and>
   hd (parse_gpx_points_every_n_km g (p # ps) iv) = (latitude p, longitude p)"
proof -
  obtain added where "coarse_loop g iv ps [p] p 0 = [p] @ added"
    using coarse_loop_prefix [of g iv ps "[p]" p 0] by blast
  then show ?thesis
    by (simp add: parse_gpx_points_every_n_km_def coords_def)
qed

theorem coarse_sample_first_point_witness:
  "parse_gpx_points_every_n_km equator_km [on_equator (1/10), on_equator (2/10)] 10 \<noteq> [] \<and>
   hd (parse_gpx_points_every_n_km equator_km [on_equator (1/10), on_equator (2/10)] 10) =
     (0, 1/10)"
  using coarse_sample_first_point
    [where g = equator_km and iv = 10 and p = "on_equator (1/10)"
       and ps = "[on_equator (2/10)]"]
  by (simp add: on_equator_def)

text \<open>
  C10: the coarse sample is a subsequence of the raw track: the coordinates of some of
  the raw points, in the order of the track. This holds for every interval, positive or
  not.
\<close>

theorem coarse_sample_subseq:
  "subseq (parse_gpx_points_every_n_km g all_points iv) (map coords all_points)"
proof (cases all_points)
  case Nil
  then show ?thesis by (simp add: parse_gpx_points_every_n_km_def)
next
  case (Cons p ps)
  obtain added where a: "coarse_loop g iv ps [p] p 0 = [p] @ added" and s: "subseq added ps"
    using coarse_loop_prefix [of g iv ps "[p]" p 0] by blast
  have "subseq (p # added) (p # ps)" using s by simp
  then have "subseq (map coords (p # added)) (map coords (p # ps))"
    by (rule subseq_map)
  then show ?thesis using Cons a by (simp add: parse_gpx_points_every_n_km_def)
qed

theorem coarse_sample_subseq_witness:
  "subseq
     (parse_gpx_points_every_n_km equator_km
        [on_equator 0, on_equator (135/1000), on_equator (27/100)] 20)
     [(0, 0), (0, 135/1000), (0, 27/100)]"
  using coarse_sample_subseq
    [where g = equator_km and iv = 20
       and all_points = "[on_equator 0, on_equator (135/1000), on_equator (27/100)]"]
  by (simp add: on_equator_def coords_def)

text \<open>
  C8: on a track of three points whose consecutive points are at least 10 km apart (the
  scenario has about 15 km), coarse sampling with interval 10 returns the three points in
  order.
\<close>

theorem three_points_15_km:
  assumes "10 \<le> g (coords p0) (coords p1)" and "10 \<le> g (coords p1) (coords p2)"
  shows "parse_gpx_points_every_n_km g [p0, p1, p2] 10 = [coords p0, coords p1, coords p2]"
  using assms by (simp add: parse_gpx_points_every_n_km_def)

theorem three_points_15_km_witness:
  "10 \<le> equator_km (0, 0) (0, 135/1000) \<and> 10 \<le> equator_km (0, 135/1000) (0, 27/100) \<and>
   parse_gpx_points_every_n_km equator_km
     [on_equator 0, on_equator (135/1000), on_equator (27/100)] 10 =
     [(0, 0), (0, 135/1000), (0, 27/100)]"
  using three_points_15_km [of equator_km "on_equator 0" "on_equator (135/1000)"
      "on_equator (27/100)"]
  by (simp add: equator_km_def on_equator_def coords_def)

text \<open>
  While no point is accepted, the accumulator of the coarse pass is the sum of the
  distances from \<^verbatim>\<open>last_added\<close> to each point read since.
\<close>

lemma coarse_loop_skip:
  assumes nonneg: "\<forall>a b. 0 \<le> g a b"
  shows "acc + (\<Sum>q\<leftarrow>ps. g (coords la) (coords q)) < iv \<Longrightarrow>
         coarse_loop g iv (ps @ rest) sampled la acc =
         coarse_loop g iv rest sampled la (acc + (\<Sum>q\<leftarrow>ps. g (coords la) (coords q)))"
proof (induction ps arbitrary: acc)
  case Nil
  show ?case by simp
next
  case (Cons p ps)
  have "\<And>q. 0 \<le> g (coords la) (coords q)" using nonneg by blast
  then have "0 \<le> (\<Sum>q\<leftarrow>ps. g (coords la) (coords q))"
    by (intro sum_list_nonneg) auto
  then have small: "acc + g (coords la) (coords p) < iv"
    using Cons.prems by simp
  have "acc + g (coords la) (coords p) + (\<Sum>q\<leftarrow>ps. g (coords la) (coords q)) < iv"
    using Cons.prems by (simp add: add.assoc)
  then have "coarse_loop g iv (ps @ rest) sampled la (acc + g (coords la) (coords p)) =
     coarse_loop g iv rest sampled la
       (acc + g (coords la) (coords p) + (\<Sum>q\<leftarrow>ps. g (coords la) (coords q)))"
    by (rule Cons.IH)
  then show ?case using small by (simp add: Let_def add.assoc)
qed

text \<open>
  C2: what the coarse pass does instead of summing the distances between consecutive raw
  points. With a non-negative distance, the first point accepted after the seed is the
  first at which the sum of the distances from the seed to every point read so far
  reaches the interval, whatever the distances between consecutive points are. In the
  instance below the points are about 1.11 km apart, the interval is 10, and the point
  4.45 km along the track is accepted.
\<close>

theorem coarse_pass_measures_from_last_added:
  assumes "\<forall>a b. 0 \<le> g a b"
    and "(\<Sum>q\<leftarrow>ps. g (coords p0) (coords q)) < iv"
    and "iv \<le> (\<Sum>q\<leftarrow>ps @ [p]. g (coords p0) (coords q))"
  shows "parse_gpx_points_every_n_km g (p0 # ps @ [p]) iv = [coords p0, coords p]"
proof -
  have "coarse_loop g iv (ps @ [p]) [p0] p0 0 =
        coarse_loop g iv [p] [p0] p0 (0 + (\<Sum>q\<leftarrow>ps. g (coords p0) (coords q)))"
    using assms(1) by (rule coarse_loop_skip) (simp add: assms(2))
  also have "\<dots> = [p0, p]" using assms(3) by (simp add: Let_def)
  finally show ?thesis by (simp add: parse_gpx_points_every_n_km_def)
qed

theorem coarse_pass_measures_from_last_added_witness:
  "(\<forall>a b. 0 \<le> equator_km a b) \<and>
   parse_gpx_points_every_n_km equator_km
     [on_equator 0, on_equator (1/100), on_equator (2/100), on_equator (3/100),
      on_equator (4/100)] 10 = [(0, 0), (0, 4/100)] \<and>
   track_distance equator_km
     [on_equator 0, on_equator (1/100), on_equator (2/100), on_equator (3/100),
      on_equator (4/100)] < 10"
proof -
  have n: "\<forall>a b. 0 \<le> equator_km a b" by (rule equator_km_nonneg)
  have "parse_gpx_points_every_n_km equator_km
     (on_equator 0 # [on_equator (1/100), on_equator (2/100), on_equator (3/100)] @
      [on_equator (4/100)]) 10 = [coords (on_equator 0), coords (on_equator (4/100))]"
    using n by (rule coarse_pass_measures_from_last_added)
      (simp_all add: equator_km_def on_equator_def coords_def)
  moreover have "track_distance equator_km
     [on_equator 0, on_equator (1/100), on_equator (2/100), on_equator (3/100),
      on_equator (4/100)] < 10"
    by (simp add: equator_km_def on_equator_def coords_def)
  ultimately show ?thesis using n by (simp add: on_equator_def coords_def)
qed

section \<open>The distance markers\<close>

text \<open>
  Reading one more point: the total is the length of the track read so far, and the
  point is compared with the distance recorded in the last marker.
\<close>

lemma markers_loop_snoc:
  "markers_loop g iv (xs @ [p]) ms t l =
     (let ms' = markers_loop g iv xs ms t l;
          total = t + track_distance g (l # xs @ [p])
      in if ms' = [] \<or> iv \<le> total - of_int (marker_km (last ms'))
         then ms' @ [(latitude p, longitude p, py_round total)]
         else ms')"
proof (induction xs arbitrary: ms t l)
  case Nil
  show ?case by (simp add: Let_def)
next
  case (Cons x xs)
  show ?case
    by (simp add: Let_def Cons.IH add.assoc)
qed

text \<open>
  C4, as amended: the first raw point is never a marker; any later point \<open>p\<close> is accepted
  exactly when no marker has been accepted before it, or when the length of the track up
  to \<open>p\<close> (the sum of the distances between consecutive raw points) minus the distance
  recorded in the last accepted marker, which is that marker's rounded total, is at least
  the interval. An accepted point is recorded as its latitude, its longitude and its
  rounded total.
\<close>

theorem marker_acceptance:
  "get_distance_markers g [] iv = [] \<and>
   get_distance_markers g [p0] iv = [] \<and>
   get_distance_markers g (p0 # ps @ [p]) iv =
     (let ms = get_distance_markers g (p0 # ps) iv;
          total = track_distance g (p0 # ps @ [p])
      in if ms = [] \<or> iv \<le> total - of_int (marker_km (last ms))
         then ms @ [(latitude p, longitude p, py_round total)]
         else ms)"
  by (simp add: get_distance_markers_def markers_loop_snoc)

theorem marker_acceptance_witness:
  "get_distance_markers equator_km
     [on_equator 0, on_equator (935/10000), on_equator (1815/10000)] 10 =
     [(0, 935/10000, 10), (0, 1815/10000, 20)]"
  using marker_acceptance [of equator_km 10 "on_equator 0" "[on_equator (935/10000)]"
      "on_equator (1815/10000)"]
  by (simp add: get_distance_markers_def Let_def equator_km_def on_equator_def coords_def
      py_round_def)

text \<open>
  The claim as worded fails: the second point is accepted at 10.41 km and recorded as 10;
  the third, at 20.20 km, is 9.80 km after it, and the code accepts it because
  \<open>20.20 - 10 \<ge> 10\<close>.
\<close>

theorem markers_baseline_counterexample:
  "get_distance_markers equator_km
     [on_equator 0, on_equator (935/10000), on_equator (1815/10000)] 10 =
     [(0, 935/10000, 10), (0, 1815/10000, 20)] \<and>
   claimed_distance_markers equator_km
     [on_equator 0, on_equator (935/10000), on_equator (1815/10000)] 10 =
     [(0, 935/10000, 10)]"
  by (simp add: get_distance_markers_def claimed_distance_markers_def Let_def equator_km_def
      on_equator_def coords_def py_round_def)

text \<open>
  The recorded distances never decrease: the total grows with a non-negative distance
  and rounding is monotone.
\<close>

lemma markers_loop_sorted:
  assumes nonneg: "\<forall>a b. 0 \<le> g a b"
  shows "sorted (map marker_km ms) \<Longrightarrow> \<forall>m \<in> set ms. marker_km m \<le> py_round t \<Longrightarrow>
         sorted (map marker_km (markers_loop g iv ps ms t l))"
proof (induction ps arbitrary: ms t l)
  case Nil
  then show ?case by simp
next
  case (Cons p ps)
  let ?total = "t + g (coords l) (coords p)"
  have "0 \<le> g (coords l) (coords p)" using nonneg by blast
  then have "t \<le> ?total" by simp
  then have r: "py_round t \<le> py_round ?total" by (rule py_round_mono)
  have below: "\<forall>m \<in> set ms. marker_km m \<le> py_round ?total"
    using Cons.prems(2) r by fastforce
  show ?case
  proof (cases "length ms = 0 \<or> iv \<le> ?total - of_int (marker_km (last ms))")
    case True
    let ?ms = "ms @ [(latitude p, longitude p, py_round ?total)]"
    have "sorted (map marker_km ?ms)"
      using Cons.prems(1) below by (simp add: sorted_append)
    moreover have "\<forall>m \<in> set ?ms. marker_km m \<le> py_round ?total"
      using below by simp
    ultimately have "sorted (map marker_km (markers_loop g iv ps ?ms ?total p))"
      by (rule Cons.IH)
    then show ?thesis using True by (simp add: Let_def)
  next
    case False
    have "sorted (map marker_km (markers_loop g iv ps ms ?total p))"
      using Cons.prems(1) below by (rule Cons.IH)
    then show ?thesis using False by (simp add: Let_def)
  qed
qed

text \<open>
  C7: with a distance that is never negative, the recorded distances of the markers are
  in increasing order, each at least the one before it, for every interval.
\<close>

theorem marker_distances_sorted:
  assumes "\<forall>a b. 0 \<le> g a b"
  shows "sorted (map marker_km (get_distance_markers g all_points iv))"
proof (cases all_points)
  case Nil
  then show ?thesis by (simp add: get_distance_markers_def)
next
  case (Cons p ps)
  have "sorted (map marker_km (markers_loop g iv ps [] 0 p))"
    using assms by (rule markers_loop_sorted) simp_all
  then show ?thesis using Cons by (simp add: get_distance_markers_def)
qed

theorem marker_distances_sorted_witness:
  "(\<forall>a b. 0 \<le> equator_km a b) \<and>
   sorted (map marker_km (get_distance_markers equator_km
     [on_equator 0, on_equator (935/10000), on_equator (1815/10000)] 10))"
  using equator_km_nonneg
    marker_distances_sorted [OF equator_km_nonneg,
      of "[on_equator 0, on_equator (935/10000), on_equator (1815/10000)]" 10]
  by simp

text \<open>
  With an interval above one half the recorded distances are strictly increasing, for any
  distance function; with a smaller interval two markers can record the same distance.
\<close>

lemma strict_below_last:
  "sorted_wrt (<) (map marker_km ms) \<Longrightarrow> m \<in> set ms \<Longrightarrow> marker_km m \<le> marker_km (last ms)"
proof (induction ms)
  case Nil
  then show ?case by simp
next
  case (Cons a ms)
  then show ?case by (cases "ms = []") (auto simp add: less_imp_le)
qed

lemma markers_loop_strict:
  assumes half: "1/2 < iv"
  shows "sorted_wrt (<) (map marker_km ms) \<Longrightarrow>
         sorted_wrt (<) (map marker_km (markers_loop g iv ps ms t l))"
proof (induction ps arbitrary: ms t l)
  case Nil
  then show ?case by simp
next
  case (Cons p ps)
  let ?total = "t + g (coords l) (coords p)"
  show ?case
  proof (cases "length ms = 0 \<or> iv \<le> ?total - of_int (marker_km (last ms))")
    case True
    let ?ms = "ms @ [(latitude p, longitude p, py_round ?total)]"
    have "\<forall>m \<in> set ms. marker_km m < py_round ?total"
    proof
      fix m assume m: "m \<in> set ms"
      then have "ms \<noteq> []" by auto
      with True have "iv \<le> ?total - of_int (marker_km (last ms))" by simp
      then have "of_int (marker_km (last ms)) + 1/2 < ?total" using half by simp
      then have "marker_km (last ms) + 1 \<le> py_round ?total" by (rule py_round_above_half)
      moreover have "marker_km m \<le> marker_km (last ms)"
        using Cons.prems m by (rule strict_below_last)
      ultimately show "marker_km m < py_round ?total" by simp
    qed
    then have "sorted_wrt (<) (map marker_km ?ms)"
      using Cons.prems by (simp add: sorted_wrt_append)
    then have "sorted_wrt (<) (map marker_km (markers_loop g iv ps ?ms ?total p))"
      by (rule Cons.IH)
    then show ?thesis using True by (simp add: Let_def)
  next
    case False
    have "sorted_wrt (<) (map marker_km (markers_loop g iv ps ms ?total p))"
      using Cons.prems by (rule Cons.IH)
    then show ?thesis using False by (simp add: Let_def)
  qed
qed

lemma marker_distances_strict:
  "1/2 < iv \<Longrightarrow> sorted_wrt (<) (map marker_km (get_distance_markers g all_points iv))"
  by (cases all_points) (simp_all add: get_distance_markers_def markers_loop_strict)

lemma marker_distances_repeat:
  "map marker_km (get_distance_markers equator_km
     [on_equator 0, on_equator (1/1000), on_equator (2/1000)] (1/10)) = [0, 0]"
  by (simp add: get_distance_markers_def Let_def equator_km_def on_equator_def coords_def
      py_round_def)

section \<open>Float arithmetic\<close>

declare bit_length.simps [simp del]

lemma bit_length_0 [simp]: "bit_length 0 = 0"
  by (simp add: bit_length.simps)

lemma bit_length_1 [simp]: "bit_length (Suc 0) = Suc 0"
  by (simp add: bit_length.simps [of "Suc 0"])

lemma bit_length_numeral [simp]:
  "bit_length (numeral k) = Suc (bit_length (numeral k div 2))"
  by (subst bit_length.simps) simp

lemma bit_length_bounds:
  "0 < n \<Longrightarrow> 2 ^ (bit_length n - 1) \<le> n \<and> n < 2 ^ bit_length n"
proof (induction n rule: bit_length.induct)
  case (1 n)
  show ?case
  proof (cases "n div 2 = 0")
    case True
    with "1.prems" have "n = 1" by presburger
    then show ?thesis by simp
  next
    case False
    then have pos: "0 < n div 2" by simp
    have ih: "2 ^ (bit_length (n div 2) - 1) \<le> n div 2 \<and> n div 2 < 2 ^ bit_length (n div 2)"
      using "1.prems" pos by (intro "1.IH") simp_all
    have bl: "bit_length n = Suc (bit_length (n div 2))"
      using "1.prems" by (subst bit_length.simps) simp
    have blpos: "0 < bit_length (n div 2)"
      using pos by (subst bit_length.simps) simp
    then obtain k where k: "bit_length (n div 2) = Suc k" by (cases "bit_length (n div 2)") auto
    have "2 * 2 ^ k \<le> 2 * (n div 2)" using ih k by simp
    also have "\<dots> \<le> n" by simp
    finally have lower: "2 ^ (bit_length n - 1) \<le> n" using bl k by simp
    have "n div 2 + 1 \<le> 2 ^ bit_length (n div 2)" using ih by simp
    then have "2 * (n div 2) + 2 \<le> 2 * 2 ^ bit_length (n div 2)" by simp
    moreover have "n < 2 * (n div 2) + 2" by presburger
    ultimately have "n < 2 ^ bit_length n" using bl by simp
    with lower show ?thesis by simp
  qed
qed

lemma bit_length_pos: "0 < n \<Longrightarrow> 0 < bit_length n"
  by (subst bit_length.simps) simp

lemma binary_exponent_lower:
  assumes "0 < x"
  shows "power_int 2 (binary_exponent x) \<le> x"
proof (cases "1 \<le> x")
  case True
  let ?n = "nat \<lfloor>x\<rfloor>"
  have n: "0 < ?n" using True by simp
  have e: "binary_exponent x = int (bit_length ?n - 1)"
    using True bit_length_pos [OF n] by (simp add: binary_exponent_def of_nat_diff)
  have "(2::nat) ^ (bit_length ?n - 1) \<le> ?n" using bit_length_bounds [OF n] by simp
  then have "real ((2::nat) ^ (bit_length ?n - 1)) \<le> real ?n"
    by (simp only: of_nat_le_iff)
  then have "(2::real) ^ (bit_length ?n - 1) \<le> real ?n" by simp
  also have "\<dots> \<le> x" using True by simp
  finally show ?thesis by (simp add: e)
next
  case False
  let ?k = "nat (\<lceil>1 / x\<rceil> - 1)"
  have "1 < 1 / x" using assms False by simp
  then have c: "2 \<le> \<lceil>1 / x\<rceil>" by linarith
  then have k: "0 < ?k" by simp
  have e: "binary_exponent x = - int (bit_length ?k)"
    using False by (simp add: binary_exponent_def)
  have "?k < 2 ^ bit_length ?k" using bit_length_bounds [OF k] by blast
  then have "Suc ?k \<le> 2 ^ bit_length ?k" by (rule Suc_leI)
  then have "real (Suc ?k) \<le> real (2 ^ bit_length ?k)" by (simp only: of_nat_le_iff)
  moreover have "real (Suc ?k) = of_int \<lceil>1 / x\<rceil>"
  proof -
    define c where "c = \<lceil>1 / x\<rceil>"
    have "2 \<le> c" using \<open>2 \<le> \<lceil>1 / x\<rceil>\<close> by (simp only: c_def)
    then have "int (Suc (nat (c - 1))) = c" by simp
    then have "real_of_int (int (Suc (nat (c - 1)))) = real_of_int c" by (simp only:)
    then have "real (Suc (nat (c - 1))) = real_of_int c" by (simp only: of_int_of_nat_eq)
    then show ?thesis by (simp only: c_def)
  qed
  ultimately have "of_int \<lceil>1 / x\<rceil> \<le> (2::real) ^ bit_length ?k" by simp
  moreover have "1 / x \<le> of_int \<lceil>1 / x\<rceil>" by linarith
  ultimately have "1 / x \<le> (2::real) ^ bit_length ?k" by linarith
  then have "1 \<le> (2::real) ^ bit_length ?k * x"
    using assms by (simp add: field_simps)
  then have "1 / (2::real) ^ bit_length ?k \<le> x"
    by (simp add: field_simps)
  then show ?thesis by (simp add: e power_int_minus_divide)
qed

lemma round_double_nonneg: "0 \<le> x \<Longrightarrow> 0 \<le> round_double x"
proof -
  assume x: "0 \<le> x"
  show ?thesis
  proof (cases "x = 0")
    case True
    then show ?thesis by (simp add: round_double_def)
  next
    case False
    define q :: real where "q = power_int 2 (max (binary_exponent x) (- 1022) - 52)"
    have q: "0 < q" by (simp add: q_def)
    have "0 \<le> x / q" using x q by simp
    then have "0 \<le> py_round (x / q)" by (rule py_round_nonneg)
    then have "0 \<le> of_int (py_round (x / q)) * q" using q by simp
    then show ?thesis using False by (simp add: round_double_def Let_def q_def)
  qed
qed

text \<open>
  The rounded value is within half a spacing of the number: a relative error of
  \<open>2\<^sup>-\<^sup>5\<^sup>3\<close>, or \<open>2\<^sup>-\<^sup>1\<^sup>0\<^sup>7\<^sup>5\<close> below the normal range.
\<close>

lemma round_double_near:
  assumes "0 \<le> x"
  shows "\<bar>round_double x - x\<bar> \<le> x / 2 ^ 53 + 1 / 2 ^ 1075"
proof (cases "x = 0")
  case True
  then show ?thesis by (simp add: round_double_def)
next
  case False
  then have pos: "0 < x" using assms by simp
  define e where "e = max (binary_exponent x) (- 1022)"
  define q :: real where "q = power_int 2 (e - 52)"
  have q: "0 < q" by (simp add: q_def)
  have rd: "round_double x = of_int (py_round (x / q)) * q"
    using False by (simp add: round_double_def Let_def q_def e_def)
  have "\<bar>x / q - of_int (py_round (x / q))\<bar> \<le> 1/2" by (rule py_round_near)
  then have "\<bar>x / q - of_int (py_round (x / q))\<bar> * q \<le> 1/2 * q"
    using q by (simp only: mult_le_cancel_right_pos)
  moreover have "\<bar>x / q - of_int (py_round (x / q))\<bar> * q =
      \<bar>(x / q - of_int (py_round (x / q))) * q\<bar>"
    using q by (simp add: abs_mult)
  moreover have "(x / q - of_int (py_round (x / q))) * q = x - of_int (py_round (x / q)) * q"
    using q by (simp add: left_diff_distrib)
  ultimately have err: "\<bar>x - round_double x\<bar> \<le> q / 2" by (simp add: rd)
  have half: "q / 2 = power_int 2 e / 2 ^ 53"
  proof -
    have "power_int (2::real) (e - 52) = power_int 2 e / power_int 2 52"
      by (rule power_int_diff) simp
    then show ?thesis by (simp add: q_def)
  qed
  have "power_int (2::real) e / 2 ^ 53 \<le> x / 2 ^ 53 + 1 / 2 ^ 1075"
  proof (cases "- 1022 \<le> binary_exponent x")
    case True
    then have "e = binary_exponent x" by (simp add: e_def)
    then have "power_int 2 e \<le> x" using binary_exponent_lower [OF pos] by simp
    then have "power_int 2 e / 2 ^ 53 \<le> x / 2 ^ 53" by (simp add: divide_right_mono)
    then show ?thesis by simp
  next
    case False
    then have "e = - 1022" by (simp add: e_def)
    then have "power_int (2::real) e / 2 ^ 53 = 1 / 2 ^ 1075"
      by (simp add: power_int_minus_divide)
    then show ?thesis using pos by simp
  qed
  then show ?thesis using err half by (simp add: abs_minus_commute)
qed

lemma py_round_of_int [simp]: "py_round (of_int n) = n"
  by (simp add: py_round_def Let_def)

lemma binary_exponent_upper:
  assumes "0 < x"
  shows "x < power_int 2 (binary_exponent x + 1)"
proof (cases "1 \<le> x")
  case True
  let ?n = "nat \<lfloor>x\<rfloor>"
  have n: "0 < ?n" using True by simp
  have e: "binary_exponent x + 1 = int (bit_length ?n)"
    using True by (simp add: binary_exponent_def)
  have "?n < 2 ^ bit_length ?n" using bit_length_bounds [OF n] by blast
  then have "Suc ?n \<le> 2 ^ bit_length ?n" by (rule Suc_leI)
  then have "real (Suc ?n) \<le> real (2 ^ bit_length ?n)" by (simp only: of_nat_le_iff)
  then have "real ?n + 1 \<le> (2::real) ^ bit_length ?n" by simp
  moreover have "x < real ?n + 1"
  proof -
    have "x < of_int \<lfloor>x\<rfloor> + 1" by linarith
    moreover have "real ?n = of_int \<lfloor>x\<rfloor>" using True by simp
    ultimately show ?thesis by simp
  qed
  ultimately have "x < (2::real) ^ bit_length ?n" by linarith
  then show ?thesis by (simp only: e power_int_of_nat)
next
  case False
  let ?k = "nat (\<lceil>1 / x\<rceil> - 1)"
  have big: "1 < 1 / x" using assms False by simp
  then have c: "2 \<le> \<lceil>1 / x\<rceil>" by linarith
  then have k: "0 < ?k" by simp
  have e: "binary_exponent x + 1 = - int (bit_length ?k - 1)"
    using False bit_length_pos [OF k] by (simp add: binary_exponent_def of_nat_diff)
  have "(2::nat) ^ (bit_length ?k - 1) \<le> ?k" using bit_length_bounds [OF k] by blast
  then have "real ((2::nat) ^ (bit_length ?k - 1)) \<le> real ?k" by (simp only: of_nat_le_iff)
  then have le: "(2::real) ^ (bit_length ?k - 1) \<le> real ?k" by simp
  have "real ?k < 1 / x"
  proof -
    define c where "c = \<lceil>1 / x\<rceil>"
    have c2: "2 \<le> c" using \<open>2 \<le> \<lceil>1 / x\<rceil>\<close> by (simp only: c_def)
    have "of_int c - 1 < 1 / x" unfolding c_def by linarith
    moreover have "real (nat (c - 1)) = of_int c - 1" using c2 by simp
    ultimately have "real (nat (c - 1)) < 1 / x" by simp
    then show ?thesis by (simp only: c_def)
  qed
  then have "(2::real) ^ (bit_length ?k - 1) < 1 / x" using le by linarith
  then have "(2::real) ^ (bit_length ?k - 1) * x < 1"
    using assms by (simp add: field_simps)
  then have "x < 1 / (2::real) ^ (bit_length ?k - 1)"
    by (simp add: field_simps)
  then show ?thesis by (simp only: e power_int_minus_divide power_int_of_nat)
qed

lemma binary_exponent_unique:
  assumes "0 < x" and lo: "power_int 2 k \<le> x" and hi: "x < power_int 2 (k + 1)"
  shows "binary_exponent x = k"
proof -
  let ?e = "binary_exponent x"
  have l: "power_int 2 ?e \<le> x" using assms(1) by (rule binary_exponent_lower)
  have u: "x < power_int 2 (?e + 1)" using assms(1) by (rule binary_exponent_upper)
  have "power_int (2::real) ?e < power_int 2 (k + 1)" using l hi by linarith
  then have a: "?e < k + 1"
    by (metis not_less power_int_increasing one_le_numeral)
  have "power_int (2::real) k < power_int 2 (?e + 1)" using lo u by linarith
  then have b: "k < ?e + 1"
    by (metis not_less power_int_increasing one_le_numeral)
  show ?thesis using a b by simp
qed

lemma two_powi_add: "power_int (2::real) (a + b) = power_int 2 a * power_int 2 b"
  by (rule power_int_add) simp

lemma two_powi_52: "power_int (2::real) k = 2 ^ 52 * power_int 2 (k - 52)"
  using two_powi_add [of 52 "k - 52"] by simp

lemma two_powi_Suc: "power_int (2::real) (k + 1) = 2 * power_int 2 k"
  using two_powi_add [of 1 k] by (simp add: add.commute)

lemma round_double_fixed:
  assumes "0 < p" and "max (binary_exponent p) (- 1022) = m"
    and "p = of_int n * power_int 2 (m - 52)"
  shows "round_double p = p"
proof -
  have q: "0 < power_int (2::real) (m - 52)" by simp
  have "p / power_int 2 (m - 52) = of_int n" using assms(3) q by simp
  then have "py_round (p / power_int 2 (m - 52)) = n" by simp
  then show ?thesis using assms by (simp add: round_double_def Let_def)
qed

text \<open>A rounded number is a float: rounding it again changes nothing.\<close>

lemma round_double_idem:
  assumes "0 \<le> y"
  shows "round_double (round_double y) = round_double y"
proof (cases "round_double y = 0")
  case True
  then show ?thesis by (simp add: round_double_def)
next
  case False
  then have y0: "y \<noteq> 0" by (auto simp add: round_double_def)
  then have ypos: "0 < y" using assms by simp
  define e where "e = binary_exponent y"
  define m where "m = max e (- 1022)"
  define q :: real where "q = power_int 2 (m - 52)"
  define n where "n = py_round (y / q)"
  define p where "p = round_double y"
  have q: "0 < q" by (simp add: q_def)
  have p: "p = of_int n * q"
    using y0 by (simp add: p_def round_double_def Let_def n_def q_def m_def e_def)
  have ppos: "0 < p" using False round_double_nonneg [OF assms] by (simp add: p_def)
  have lo: "power_int 2 e \<le> y" unfolding e_def using ypos by (rule binary_exponent_lower)
  have hi: "y < power_int 2 (e + 1)" unfolding e_def using ypos by (rule binary_exponent_upper)
  have "round_double p = p"
  proof (cases "- 1022 \<le> e")
    case True
    then have me: "m = e" by (simp add: m_def)
    have qe: "power_int 2 e = 2 ^ 52 * q" unfolding q_def me by (rule two_powi_52)
    have "2 ^ 52 * q \<le> y" using lo qe by simp
    then have "2 ^ 52 \<le> y / q" using q by (simp add: pos_le_divide_eq)
    then have "py_round (of_int (2 ^ 52)) \<le> py_round (y / q)"
      by (intro py_round_mono) simp
    then have nlo: "2 ^ 52 \<le> n" by (simp only: py_round_of_int n_def)
    have "y < 2 * (2 ^ 52 * q)" using hi qe by (simp add: two_powi_Suc)
    then have "y / q \<le> 2 ^ 53" using q by (simp add: pos_divide_le_eq)
    then have "py_round (y / q) \<le> py_round (of_int (2 ^ 53))"
      by (intro py_round_mono) simp
    then have nhi: "n \<le> 2 ^ 53" by (simp only: py_round_of_int n_def)
    show ?thesis
    proof (cases "n = 2 ^ 53")
      case True
      have pv: "p = power_int 2 (e + 1)"
        using p True qe by (simp add: two_powi_Suc)
      have "binary_exponent p = e + 1"
        using ppos
      proof (rule binary_exponent_unique)
        show "power_int 2 (e + 1) \<le> p" using pv by simp
        have "power_int (2::real) (e + 1 + 1) = 2 * power_int 2 (e + 1)"
          by (rule two_powi_Suc)
        then have "power_int (2::real) (e + 1 + 1) = 2 * p" by (simp only: pv)
        then show "p < power_int 2 (e + 1 + 1)" using ppos by linarith
      qed
      then have mx: "max (binary_exponent p) (- 1022) = e + 1"
        using \<open>- 1022 \<le> e\<close> by simp
      have "p = of_int (2 ^ 52) * power_int 2 (e + 1 - 52)"
        using pv two_powi_52 [of "e + 1"] by simp
      with ppos mx show ?thesis by (rule round_double_fixed)
    next
      case False
      then have nlt: "n < 2 ^ 53" using nhi by simp
      have "binary_exponent p = e"
        using ppos
      proof (rule binary_exponent_unique)
        have "(2::real) ^ 52 \<le> of_int n"
          using nlo by (simp add: numeral_power_le_of_int_cancel_iff)
        then have "2 ^ 52 * q \<le> of_int n * q" using q by simp
        then show "power_int 2 e \<le> p" using p qe by simp
        have "real_of_int n < 2 ^ 53"
          using nlt by (simp add: of_int_less_numeral_power_cancel_iff)
        then have "of_int n * q < 2 ^ 53 * q" using q by simp
        then show "p < power_int 2 (e + 1)" using p qe by (simp add: two_powi_Suc)
      qed
      then have mx: "max (binary_exponent p) (- 1022) = e"
        using \<open>- 1022 \<le> e\<close> by simp
      have "p = of_int n * power_int 2 (e - 52)" using p by (simp add: q_def me)
      with ppos mx show ?thesis by (rule round_double_fixed)
    qed
  next
    case False
    define z :: int where "z = - 1022"
    have mm: "m = z" using False by (simp add: m_def z_def)
    have "e + 1 \<le> z" using False by (simp add: z_def)
    then have "power_int (2::real) (e + 1) \<le> power_int 2 z"
      by (intro power_int_increasing) simp_all
    then have ysmall: "y < power_int 2 z" using hi by linarith
    have qm: "power_int 2 z = 2 ^ 52 * q" unfolding q_def mm by (rule two_powi_52)
    have "y < 2 ^ 52 * q" using ysmall by (simp only: qm)
    then have "y / q \<le> 2 ^ 52" using q by (simp add: pos_divide_le_eq)
    then have "py_round (y / q) \<le> py_round (of_int (2 ^ 52))"
      by (intro py_round_mono) simp
    then have nhi: "n \<le> 2 ^ 52" by (simp only: py_round_of_int n_def)
    have "binary_exponent p \<le> z"
    proof (cases "n = 2 ^ 52")
      case True
      then have "p = 2 ^ 52 * q" using p by simp
      then have pv: "p = power_int 2 z" by (simp only: qm)
      have "binary_exponent p = z"
        using ppos
      proof (rule binary_exponent_unique)
        show "power_int 2 z \<le> p" using pv by simp
        have "power_int (2::real) (z + 1) = 2 * power_int 2 z" by (rule two_powi_Suc)
        then have "power_int (2::real) (z + 1) = 2 * p" by (simp only: pv)
        then show "p < power_int 2 (z + 1)" using ppos by linarith
      qed
      then show ?thesis by simp
    next
      case False
      then have "n < 2 ^ 52" using nhi by simp
      then have "real_of_int n < 2 ^ 52" by (simp add: of_int_less_numeral_power_cancel_iff)
      then have "of_int n * q < 2 ^ 52 * q" using q by simp
      then have "p < power_int 2 z" by (simp only: p qm)
      moreover have "power_int 2 (binary_exponent p) \<le> p"
        using ppos by (rule binary_exponent_lower)
      ultimately have "power_int (2::real) (binary_exponent p) < power_int 2 z"
        by linarith
      then have "binary_exponent p < z"
        by (metis not_less power_int_increasing one_le_numeral)
      then show ?thesis by simp
    qed
    then have mx: "max (binary_exponent p) (- 1022) = z" by (simp add: z_def)
    have "p = of_int n * power_int 2 (z - 52)" using p by (simp only: q_def mm)
    with ppos mx show ?thesis by (rule round_double_fixed)
  qed
  then show ?thesis by (simp add: p_def)
qed

lemma sum_below_bound:
  "(y::real) \<le> 2 * b \<Longrightarrow> e \<le> y / 2 \<Longrightarrow> t < b \<Longrightarrow> y + e + t < 4 * b"
  by linarith

lemma round_double_in_range:
  assumes "0 \<le> y" and "y \<le> 2 ^ 1023"
  shows "round_double y < 2 ^ 1024"
proof -
  have "\<bar>round_double y - y\<bar> \<le> y / 2 ^ 53 + 1 / 2 ^ 1075"
    using assms(1) by (rule round_double_near)
  then have up: "round_double y \<le> y + y / 2 ^ 53 + 1 / 2 ^ 1075" by linarith
  have a: "y \<le> 2 * 2 ^ 1022" using assms(2) by simp
  have "y / 2 ^ 53 \<le> y / 2"
    using assms(1) by (intro divide_left_mono) simp_all
  moreover have "(1::real) / 2 ^ 1075 \<le> 1" by simp
  then have "(1::real) / 2 ^ 1075 < 2 ^ 1022" by (simp add: less_le_trans [of _ 1])
  ultimately have "y + y / 2 ^ 53 + 1 / 2 ^ 1075 < 4 * 2 ^ 1022"
    using a by (intro sum_below_bound)
  moreover have "(4::real) * 2 ^ 1022 = 2 ^ 1024" by simp
  ultimately show ?thesis using up by linarith
qed

lemma finite_parts_nonneg: "finite_parts x = Some (is_neg, a) \<Longrightarrow> 0 \<le> a"
  by (cases x) (auto simp add: round_double_nonneg)

lemma thousand_is_float: "round_double 1000 = 1000"
  by (simp add: round_double_def binary_exponent_def Let_def py_round_def)

lemma finite_parts_not_NaN: "finite_parts x = Some (is_neg, a) \<Longrightarrow> x \<noteq> NaN"
  by (cases x) auto

text \<open>
  \<^verbatim>\<open>int(radius_km * 1000)\<close> for a finite radius of at most \<open>2\<^sup>1\<^sup>0\<^sup>2\<^sup>3 / 1000\<close>: the integer
  part of the rounded product of the magnitude and 1000, with the sign of the radius.
\<close>

lemma int_of_float_product:
  assumes f: "finite_parts radius_km = Some (is_neg, a)" and small: "a * 1000 \<le> 2 ^ 1023"
  shows "py_int (py_mul radius_km (Num 1000)) =
           Inr (if is_neg then - \<lfloor>round_double (a * 1000)\<rfloor> else \<lfloor>round_double (a * 1000)\<rfloor>)"
proof -
  let ?p = "round_double (a * 1000)"
  have a: "0 \<le> a * 1000" using finite_parts_nonneg [OF f] by simp
  have p0: "0 \<le> ?p" using a by (rule round_double_nonneg)
  have pr: "\<not> 2 ^ 1024 \<le> ?p" using round_double_in_range [OF a small] by simp
  have nn: "radius_km \<noteq> NaN" using f by (rule finite_parts_not_NaN)
  have m: "py_mul radius_km (Num 1000) =
      (if ?p = 0 then (if is_neg then NegZero else Num 0)
       else Num (if is_neg then - ?p else ?p))"
    using nn f pr by (simp add: py_mul_def Let_def thousand_is_float)
  have idem: "round_double ?p = ?p" using a by (rule round_double_idem)
  show ?thesis
  proof (cases "?p = 0")
    case True
    then show ?thesis using m by (simp add: round_double_def)
  next
    case False
    then have "0 < ?p" using p0 by simp
    then show ?thesis using m False idem by simp
  qed
qed


lemma product_of_two: "py_int (py_mul (Num 2) (Num 1000)) = Inr 2000"
  by (simp add: py_mul_def round_double_def binary_exponent_def Let_def py_round_def
      infinity_def)

text \<open>
  The float \<^verbatim>\<open>0.7\<close> is \<open>6305039478318694 / 2\<^sup>5\<^sup>3\<close>, below 0.7; its exact product with
  1000 is below 700, and its float product with 1000 is 700. The float \<^verbatim>\<open>1.005\<close> is
  below 1.005, and its float product with 1000 is below 1005.
\<close>

lemma seven_tenths_is:
  "round_double (7/10) = 6305039478318694 / 2 ^ 53 \<and>
   \<lfloor>(6305039478318694 / 2 ^ 53) * (1000::real)\<rfloor> = 699"
  by (simp add: round_double_def binary_exponent_def Let_def py_round_def)

lemma product_of_seven_tenths: "py_int (py_mul (Num (7/10)) (Num 1000)) = Inr 700"
  by (simp add: py_mul_def round_double_def binary_exponent_def Let_def py_round_def
      infinity_def)

lemma product_of_1005: "py_int (py_mul (Num (1005/1000)) (Num 1000)) = Inr 1004"
  by (simp add: py_mul_def round_double_def binary_exponent_def Let_def py_round_def
      infinity_def)

lemma product_of_negative: "py_int (py_mul (Num (- 3/2)) (Num 1000)) = Inr (- 1500)"
  by (simp add: py_mul_def round_double_def binary_exponent_def Let_def py_round_def
      infinity_def)

section \<open>The request\<close>

lemma digit_cases: "d < 10 \<Longrightarrow> d \<in> {0, 1, 2, 3, 4, 5, 6, 7, 8, 9::nat}"
  by auto

lemma digit_char_value: "d < 10 \<Longrightarrow> digit_value (digit_char d) = d"
  using digit_cases [of d] by (auto simp add: digit_value_def digit_char_def)

lemma digit_char_is_digit: "d < 10 \<Longrightarrow> is_digit (digit_char d)"
  using digit_cases [of d] by (auto simp add: is_digit_def digit_char_def)

lemma digits_value_snoc: "digits_value (s @ [c]) = 10 * digits_value s + digit_value c"
  by (simp add: digits_value_def)

lemma decimal_value: "digits_value (decimal n) = n"
proof (induction n rule: decimal.induct)
  case (1 n)
  show ?case
  proof (cases "n < 10")
    case True
    then show ?thesis
      by (subst decimal.simps) (simp add: digits_value_def digit_char_value)
  next
    case False
    then have "digits_value (decimal (n div 10)) = n div 10" by (rule "1.IH")
    moreover have "n mod 10 < 10" by simp
    ultimately show ?thesis using False
      by (subst decimal.simps) (simp add: digits_value_snoc digit_char_value)
  qed
qed

lemma decimal_digits: "list_all is_digit (decimal n) \<and> decimal n \<noteq> []"
proof (induction n rule: decimal.induct)
  case (1 n)
  show ?case
  proof (cases "n < 10")
    case True
    have "decimal n = [digit_char n]" using True by (subst decimal.simps) simp
    then show ?thesis using True by (simp add: digit_char_is_digit)
  next
    case False
    then have ih: "list_all is_digit (decimal (n div 10)) \<and> decimal (n div 10) \<noteq> []"
      by (rule "1.IH")
    have d: "is_digit (digit_char (n mod 10))" by (simp add: digit_char_is_digit)
    have "decimal n = decimal (n div 10) @ [digit_char (n mod 10)]"
      using False by (subst decimal.simps) simp
    then show ?thesis using ih d by simp
  qed
qed

lemma fraction6_digits: "length (fraction6 m) = 6 \<and> list_all is_digit (fraction6 m)"
  by (simp add: fraction6_def digit_char_is_digit)

lemma fraction6_unfold:
  "digits_value (fraction6 m) =
    10 * (10 * (10 * (10 * (10 * (m div 100000 mod 10) + m div 10000 mod 10) +
      m div 1000 mod 10) + m div 100 mod 10) + m div 10 mod 10) + m mod 10"
  by (simp add: fraction6_def digits_value_def digit_char_value)

lemma div_step: "(m::nat) div k = 10 * (m div (k * 10)) + m div k mod 10"
  by (simp add: div_mult2_eq)

lemma digits_combine:
  "(m::nat) = 10 * a1 + d0 \<Longrightarrow> a1 = 10 * a2 + d1 \<Longrightarrow> a2 = 10 * a3 + d2 \<Longrightarrow>
   a3 = 10 * a4 + d3 \<Longrightarrow> a4 = 10 * a5 + d4 \<Longrightarrow>
   10 * (10 * (10 * (10 * (10 * a5 + d4) + d3) + d2) + d1) + d0 = m"
  by simp

lemma fraction6_value:
  assumes "m < 1000000"
  shows "digits_value (fraction6 m) = m"
proof -
  have top: "m div 100000 mod 10 = m div 100000"
    using assms by (simp add: less_mult_imp_div_less)
  have "10 * (10 * (10 * (10 * (10 * (m div 100000) + m div 10000 mod 10) +
      m div 1000 mod 10) + m div 100 mod 10) + m div 10 mod 10) + m mod 10 = m"
  proof (rule digits_combine)
    show "m = 10 * (m div 10) + m mod 10" by simp
    show "m div 10 = 10 * (m div 100) + m div 10 mod 10"
      using div_step [of m 10] by simp
    show "m div 100 = 10 * (m div 1000) + m div 100 mod 10"
      using div_step [of m 100] by simp
    show "m div 1000 = 10 * (m div 10000) + m div 1000 mod 10"
      using div_step [of m 1000] by simp
    show "m div 10000 = 10 * (m div 100000) + m div 10000 mod 10"
      using div_step [of m 10000] by simp
  qed
  then show ?thesis using top by (simp only: fraction6_unfold)
qed

text \<open>
  For a finite float the format \<^verbatim>\<open>.6f\<close> writes a minus sign when the sign bit is set,
  at least one digit, a point and exactly six digits, and the number written is within
  half a unit of the sixth decimal place of the magnitude.
\<close>

lemma format_6f_shape:
  assumes f: "finite_parts x = Some (is_neg, a)"
  shows "\<exists>ip fp. format_6f x = (if is_neg then ''-'' else '''') @ ip @ ''.'' @ fp \<and>
     ip \<noteq> [] \<and> list_all is_digit ip \<and> length fp = 6 \<and> list_all is_digit fp \<and>
     \<bar>a - (real (digits_value ip) + real (digits_value fp) / 1000000)\<bar> \<le> 1 / 2000000"
proof -
  define n where "n = nat (py_round (a * 1000000))"
  have a0: "0 \<le> a * 1000000" using finite_parts_nonneg [OF f] by simp
  have nn: "0 \<le> py_round (a * 1000000)" using a0 by (rule py_round_nonneg)
  then have rn: "real n = of_int (py_round (a * 1000000))" by (simp add: n_def)
  have "\<bar>a * 1000000 - real n\<bar> \<le> 1/2"
    using py_round_near [of "a * 1000000"] rn by simp
  then have "- (1/2) \<le> a * 1000000 - real n" "a * 1000000 - real n \<le> 1/2"
    by linarith+
  then have "- (1 / 2000000) \<le> a - real n / 1000000"
    "a - real n / 1000000 \<le> 1 / 2000000"
    by linarith+
  then have near: "\<bar>a - real n / 1000000\<bar> \<le> 1 / 2000000"
    by linarith
  have "n = n div 1000000 * 1000000 + n mod 1000000" by simp
  then have "real n = real (n div 1000000 * 1000000 + n mod 1000000)" by simp
  then have "real n = real (n div 1000000) * 1000000 + real (n mod 1000000)"
    by (simp only: of_nat_add of_nat_mult of_nat_numeral)
  then have split: "real n / 1000000 = real (n div 1000000) + real (n mod 1000000) / 1000000"
    by simp
  have v1: "digits_value (decimal (n div 1000000)) = n div 1000000" by (rule decimal_value)
  have v2: "digits_value (fraction6 (n mod 1000000)) = n mod 1000000"
    by (rule fraction6_value) simp
  have w: "format_6f x = (if is_neg then ''-'' else '''') @ decimal (n div 1000000) @ ''.'' @
          fraction6 (n mod 1000000)"
    using f by (simp add: format_6f_def n_def Let_def)
  have b: "\<bar>a - (real (digits_value (decimal (n div 1000000))) +
      real (digits_value (fraction6 (n mod 1000000))) / 1000000)\<bar> \<le> 1 / 2000000"
    using near by (simp only: v1 v2 split)
  show ?thesis
    using w b decimal_digits [of "n div 1000000"] fraction6_digits [of "n mod 1000000"]
    by blast
qed

lemma decimal_0: "decimal 0 = ''0''"
  by (simp add: decimal.simps [of 0] digit_char_def)

lemma decimal_49: "decimal 49 = ''49''"
  by (simp add: decimal.simps [of 49] decimal.simps [of 4] digit_char_def)

lemma decimal_20: "decimal 20 = ''20''"
  by (simp add: decimal.simps [of 20] decimal.simps [of 2] digit_char_def)

lemma format_6f_Num:
  "format_6f (Num x) =
     (let n = nat (py_round (round_double \<bar>x\<bar> * 1000000))
      in (if x < 0 then ''-'' else '''') @ decimal (n div 1000000) @ ''.'' @
         fraction6 (n mod 1000000))"
  by (simp add: format_6f_def)

lemma format_6f_NegZero:
  "format_6f NegZero = ''-'' @ decimal 0 @ ''.'' @ fraction6 0"
  by (simp add: format_6f_def py_round_def)

lemma format_6f_rounds_up: "format_6f (Num (49123456789/1000000000)) = ''49.123457''"
  by (simp add: format_6f_Num round_double_def binary_exponent_def py_round_def Let_def
      fraction6_def digit_char_def decimal_49)

lemma format_6f_pads: "format_6f (Num (41/2)) = ''20.500000''"
  by (simp add: format_6f_Num round_double_def binary_exponent_def py_round_def Let_def
      fraction6_def digit_char_def decimal_20)

text \<open>
  A float that is exactly half way goes to the even digit; a decimal that looks half
  way is formatted as the float read from it, here above \<open>1.0000005\<close>.
\<close>

lemma format_6f_tie: "format_6f (Num (1/128)) = ''0.007812''"
  by (simp add: format_6f_Num round_double_def binary_exponent_def py_round_def Let_def
      fraction6_def digit_char_def decimal_0)

lemma format_6f_decimal: "format_6f (Num (10000005/10000000)) = ''1.000001''"
  by (simp add: format_6f_Num round_double_def binary_exponent_def py_round_def Let_def
      fraction6_def digit_char_def decimal.simps [of "Suc 0"])

lemma format_6f_negative_zero: "format_6f NegZero = ''-0.000000''"
  by (simp add: format_6f_NegZero fraction6_def digit_char_def decimal_0)

lemma format_6f_small_negative: "format_6f (Num (- 1 / 10000000)) = ''-0.000000''"
  by (simp add: format_6f_Num round_double_def binary_exponent_def py_round_def Let_def
      fraction6_def digit_char_def decimal_0)

text \<open>
  C9: for a point whose latitude and longitude are finite floats, a finite radius of at
  most \<open>2\<^sup>1\<^sup>0\<^sup>2\<^sup>3 / 1000\<close> km and a token, the fetcher builds a request \<open>req\<close> with the
  parameters \<^verbatim>\<open>type=parcel_locker\<close>, \<^verbatim>\<open>relative_point\<close> equal to the latitude and the
  longitude, each written with its sign, digits, a point and exactly six digits, within
  half a unit of the sixth place, joined by a comma, \<^verbatim>\<open>max_distance\<close> equal to the
  integer part of the float product of the radius and 1000 (itself within a relative
  \<open>2\<^sup>-\<^sup>5\<^sup>3\<close> of the exact product, or within \<open>2\<^sup>-\<^sup>1\<^sup>0\<^sup>7\<^sup>5\<close> of it below the normal
  range), with the sign of the radius, \<^verbatim>\<open>sort=distance\<close>, and
  the header \<^verbatim>\<open>Authorization: Bearer\<close> followed by the token; and it is to that request
  that the fetcher applies \<^verbatim>\<open>requests.get\<close>: whatever data a status 200 carries there
  is what the fetcher returns, any other request being answered by an exception.
\<close>

theorem locker_request_fields:
  assumes "finite_parts lat = Some (lat_minus, lat_abs)"
    and "finite_parts lon = Some (lon_minus, lon_abs)"
    and "finite_parts radius_km = Some (radius_minus, radius_abs)"
    and "radius_abs * 1000 \<le> 2 ^ 1023"
  shows "\<exists>req.
     locker_request lat lon radius_km token = Inr req \<and>
     url req = ''https://api-shipx-pl.easypack24.net/v1/points'' \<and>
     map_of (params req) ''type'' = Some (PStr ''parcel_locker'') \<and>
     map_of (params req) ''relative_point'' =
       Some (PStr (format_6f lat @ '','' @ format_6f lon)) \<and>
     (\<exists>ip fp. format_6f lat = (if lat_minus then ''-'' else '''') @ ip @ ''.'' @ fp \<and>
        ip \<noteq> [] \<and> list_all is_digit ip \<and> length fp = 6 \<and> list_all is_digit fp \<and>
        \<bar>lat_abs - (real (digits_value ip) + real (digits_value fp) / 1000000)\<bar>
          \<le> 1 / 2000000) \<and>
     (\<exists>ip fp. format_6f lon = (if lon_minus then ''-'' else '''') @ ip @ ''.'' @ fp \<and>
        ip \<noteq> [] \<and> list_all is_digit ip \<and> length fp = 6 \<and> list_all is_digit fp \<and>
        \<bar>lon_abs - (real (digits_value ip) + real (digits_value fp) / 1000000)\<bar>
          \<le> 1 / 2000000) \<and>
     map_of (params req) ''max_distance'' =
       Some (PInt (if radius_minus then - \<lfloor>round_double (radius_abs * 1000)\<rfloor>
                   else \<lfloor>round_double (radius_abs * 1000)\<rfloor>)) \<and>
     \<bar>round_double (radius_abs * 1000) - radius_abs * 1000\<bar>
       \<le> radius_abs * 1000 / 2 ^ 53 + 1 / 2 ^ 1075 \<and>
     map_of (params req) ''sort'' = Some (PStr ''distance'') \<and>
     map_of (headers req) ''Authorization'' = Some (''Bearer '' @ token) \<and>
     (\<forall>content data message.
        get_nearby_parcel_lockers
          (\<lambda>q. if q = req then Response 200 content data else RequestException message)
          lat lon radius_km token = Inr ([DebugStatus 200], data))"
proof -
  let ?m = "if radius_minus then - \<lfloor>round_double (radius_abs * 1000)\<rfloor>
            else \<lfloor>round_double (radius_abs * 1000)\<rfloor>"
  let ?req = "\<lparr>url = ''https://api-shipx-pl.easypack24.net/v1/points'',
               params = [(''type'', PStr ''parcel_locker''),
                         (''relative_point'', PStr (format_6f lat @ '','' @ format_6f lon)),
                         (''max_distance'', PInt ?m),
                         (''sort'', PStr ''distance'')],
               headers = [(''Authorization'', ''Bearer '' @ token),
                          (''Accept'', ''application/json'')]\<rparr>"
  have i: "py_int (py_mul radius_km (Num 1000)) = Inr ?m"
    using assms(3) assms(4) by (rule int_of_float_product)
  have r: "locker_request lat lon radius_km token = Inr ?req"
    by (simp only: locker_request_def Let_def i sum.case)
  have fields: "url ?req = ''https://api-shipx-pl.easypack24.net/v1/points'' \<and>
     map_of (params ?req) ''type'' = Some (PStr ''parcel_locker'') \<and>
     map_of (params ?req) ''relative_point'' =
       Some (PStr (format_6f lat @ '','' @ format_6f lon)) \<and>
     map_of (params ?req) ''max_distance'' = Some (PInt ?m) \<and>
     map_of (params ?req) ''sort'' = Some (PStr ''distance'') \<and>
     map_of (headers ?req) ''Authorization'' = Some (''Bearer '' @ token)"
    by simp
  have near: "\<bar>round_double (radius_abs * 1000) - radius_abs * 1000\<bar>
       \<le> radius_abs * 1000 / 2 ^ 53 + 1 / 2 ^ 1075"
    using finite_parts_nonneg [OF assms(3)] by (intro round_double_near) simp
  have call: "\<forall>content data message.
        get_nearby_parcel_lockers
          (\<lambda>q. if q = ?req then Response 200 content data else RequestException message)
          lat lon radius_km token = Inr ([DebugStatus 200], data)"
    by (simp add: get_nearby_parcel_lockers_def r)
  show ?thesis
    using r fields near call format_6f_shape [OF assms(1)] format_6f_shape [OF assms(2)]
    by blast
qed

theorem locker_request_fields_witness:
  "\<exists>req. locker_request NegZero (Num (41/2)) (Num (7/10)) ''secret'' = Inr req \<and>
     map_of (params req) ''relative_point'' = Some (PStr ''-0.000000,20.500000'') \<and>
     map_of (params req) ''max_distance'' = Some (PInt 700) \<and>
     map_of (headers req) ''Authorization'' = Some ''Bearer secret''"
proof -
  have h1: "finite_parts NegZero = Some (True, 0)" by simp
  have h2: "finite_parts (Num (41/2)) = Some (False, 41/2)"
    by (simp add: round_double_def binary_exponent_def Let_def py_round_def)
  have h3: "finite_parts (Num (7/10)) = Some (False, 6305039478318694 / 2 ^ 53)"
    using seven_tenths_is by simp
  have h4: "(6305039478318694 / 2 ^ 53) * (1000::real) \<le> 2 ^ 1023" by simp
  have e: "locker_request NegZero (Num (41/2)) (Num (7/10)) ''secret'' =
      Inr \<lparr>url = ''https://api-shipx-pl.easypack24.net/v1/points'',
           params = [(''type'', PStr ''parcel_locker''),
                     (''relative_point'', PStr ''-0.000000,20.500000''),
                     (''max_distance'', PInt 700),
                     (''sort'', PStr ''distance'')],
           headers = [(''Authorization'', ''Bearer secret''),
                      (''Accept'', ''application/json'')]\<rparr>"
    using product_of_seven_tenths format_6f_negative_zero format_6f_pads
    by (simp add: locker_request_def Let_def)
  show ?thesis
    using locker_request_fields [OF h1 h2 h3 h4, of "''secret''"] e by simp
qed

section \<open>Failed requests\<close>

text \<open>With the configured radius the request is always built.\<close>

lemma configured_request:
  "\<exists>q. locker_request (Num lat) (Num lon) (Num SEARCH_RADIUS_KM) token = Inr q"
  using product_of_two by (simp add: locker_request_def Let_def SEARCH_RADIUS_KM_def)

lemma failed_fetch_is_list:
  "get_nearby_parcel_lockers rg lat lon r token = Inr (printed, lockers) \<Longrightarrow>
   (case locker_request lat lon r token of
      Inl e \<Rightarrow> True
    | Inr q \<Rightarrow> is_failure (rg q)) \<Longrightarrow>
   lockers = JList []"
proof (cases "locker_request lat lon r token")
  case (Inl e)
  assume "get_nearby_parcel_lockers rg lat lon r token = Inr (printed, lockers)"
  then show ?thesis using Inl by (simp add: get_nearby_parcel_lockers_def)
next
  case (Inr q)
  assume g: "get_nearby_parcel_lockers rg lat lon r token = Inr (printed, lockers)"
    and "case locker_request lat lon r token of Inl e \<Rightarrow> True | Inr q \<Rightarrow> is_failure (rg q)"
  then have "is_failure (rg q)" using Inr by simp
  then show ?thesis using g Inr
    by (cases "rg q") (auto simp add: get_nearby_parcel_lockers_def split: if_splits)
qed

lemma fetch_loop_failure:
  "i < length route \<Longrightarrow>
   (case locker_request (Num (fst (route ! i))) (Num (snd (route ! i)))
           (Num SEARCH_RADIUS_KM) token of
      Inl e \<Rightarrow> True
    | Inr q \<Rightarrow> is_failure (requests_get (k + i) q)) \<Longrightarrow>
   isl (snd (fetch_loop requests_get token k route acc lines))"
proof (induction route arbitrary: i k acc lines)
  case Nil
  then show ?case by simp
next
  case (Cons pt rest)
  obtain lat lon where pt: "pt = (lat, lon)" by (cases pt)
  show ?case
  proof (cases "get_nearby_parcel_lockers (requests_get k) (Num lat) (Num lon)
                  (Num SEARCH_RADIUS_KM) token")
    case (Inl e)
    then show ?thesis using pt by simp
  next
    case (Inr result)
    obtain printed lockers where res: "result = (printed, lockers)" by (cases result)
    show ?thesis
    proof (cases i)
      case 0
      then have "case locker_request (Num lat) (Num lon) (Num SEARCH_RADIUS_KM) token of
                   Inl e \<Rightarrow> True
                 | Inr q \<Rightarrow> is_failure (requests_get k q)"
        using Cons.prems(2) pt by (simp cong: sum.case_cong)
      then have "lockers = JList []"
        using failed_fetch_is_list [of "requests_get k" "Num lat" "Num lon"
            "Num SEARCH_RADIUS_KM" token printed lockers] Inr res
        by simp
      then show ?thesis using pt Inr res by simp
    next
      case (Suc j)
      have j: "j < length rest" using Cons.prems(1) Suc by simp
      have f: "case locker_request (Num (fst (rest ! j))) (Num (snd (rest ! j)))
                      (Num SEARCH_RADIUS_KM) token of
                 Inl e \<Rightarrow> True
               | Inr q \<Rightarrow> is_failure (requests_get (Suc k + j) q)"
        using Cons.prems(2) Suc by (simp cong: sum.case_cong)
      note ih = Cons.IH [OF j f]
      show ?thesis using pt Inr res ih
        by (simp add: Let_def split: sum.splits)
    qed
  qed
qed

text \<open>
  C1: what the run does when a request fails. If the call made for some coarse point is
  answered by a status other than 200 or by a \<^verbatim>\<open>RequestException\<close> (or if its request
  cannot be built), the run ends with an exception: the fetcher returns the list
  \<^verbatim>\<open>[]\<close>, and \<^verbatim>\<open>main\<close> calls \<^verbatim>\<open>.get\<close> on it. In the instance below the locator
  answers 500 for the only point: the three lines of the failure are printed and the run
  ends with \<^verbatim>\<open>AttributeError\<close>.
\<close>

theorem failed_request_ends_run:
  assumes "i < length (parse_gpx_points_every_n_km g all_points TRAIL_CHUNK)"
    and "case locker_request
                (Num (fst (parse_gpx_points_every_n_km g all_points TRAIL_CHUNK ! i)))
                (Num (snd (parse_gpx_points_every_n_km g all_points TRAIL_CHUNK ! i)))
                (Num SEARCH_RADIUS_KM) token of
           Inl e \<Rightarrow> True
         | Inr q \<Rightarrow> is_failure (requests_get i q)"
  shows "isl (snd (main g requests_get token all_points))"
proof -
  let ?route = "parse_gpx_points_every_n_km g all_points TRAIL_CHUNK"
  have "isl (snd (fetch_loop requests_get token 0 ?route [] []))"
    using fetch_loop_failure
      [where i = i and route = ?route and token = token and requests_get = requests_get
         and k = 0 and acc = "[]" and lines = "[]"] assms
    by (simp cong: sum.case_cong)
  then show ?thesis
    by (cases "fetch_loop requests_get token 0 ?route [] []")
       (auto simp add: main_def Let_def split: sum.splits)
qed

theorem failed_request_ends_run_witness:
  "main equator_km (\<lambda>i q. Response 500 ''Internal Server Error'' JNull) ''t'' [on_equator 0] =
     ([DebugStatus 500, ErrorStatus 500, ErrorContent ''Internal Server Error''],
      Inl AttributeError)"
proof -
  let ?rg = "\<lambda>(i::nat) (q::request). Response 500 ''Internal Server Error'' JNull"
  have r: "parse_gpx_points_every_n_km equator_km [on_equator 0] TRAIL_CHUNK = [(0, 0)]"
    by (simp add: parse_gpx_points_every_n_km_def coords_def on_equator_def)
  obtain q where q: "locker_request (Num 0) (Num 0) (Num SEARCH_RADIUS_KM) ''t'' = Inr q"
    using configured_request [of 0 0 "''t''"] by blast
  have "isl (snd (main equator_km ?rg ''t'' [on_equator 0]))"
    by (rule failed_request_ends_run [of 0]) (simp_all add: r q)
  moreover have "main equator_km ?rg ''t'' [on_equator 0] =
     ([DebugStatus 500, ErrorStatus 500, ErrorContent ''Internal Server Error''],
      Inl AttributeError)"
    by (simp add: main_def r q get_nearby_parcel_lockers_def)
  ultimately show ?thesis by simp
qed

section \<open>The empty track\<close>

text \<open>
  C3: on a track without points both passes return the empty list; no request is made,
  nothing is printed by the fetcher, and the run ends with \<^verbatim>\<open>IndexError\<close> when
  \<^verbatim>\<open>create_map_with_lockers\<close> reads \<^verbatim>\<open>route_points[0]\<close>: no map is produced.
\<close>

theorem empty_track_run:
  "parse_gpx_points_every_n_km g [] coarse_interval = [] \<and>
   get_distance_markers g [] marker_interval = [] \<and>
   main g requests_get token [] = ([], Inl IndexError)"
  by (simp add: parse_gpx_points_every_n_km_def get_distance_markers_def main_def
      unique_lockers_def create_map_with_lockers_def)

section \<open>Unique lockers\<close>

lemma unique_loop_first:
  assumes "\<forall>l \<in> set xs. \<exists>s. subscript l ''name'' = Inr (JStr s)"
  shows "\<exists>added. unique_loop xs seen out = Inr (out @ added) \<and> subseq added xs \<and>
           distinct (map (\<lambda>l. subscript l ''name'') added) \<and>
           (\<forall>k. find (\<lambda>l. subscript l ''name'' = Inr k) added =
                  (if k \<in> seen then None else find (\<lambda>l. subscript l ''name'' = Inr k) xs))"
  using assms
proof (induction xs arbitrary: seen out)
  case Nil
  show ?case by simp
next
  case (Cons l ls)
  from Cons.prems obtain s where nm: "subscript l ''name'' = Inr (JStr s)" by auto
  have rest: "\<forall>l \<in> set ls. \<exists>s. subscript l ''name'' = Inr (JStr s)"
    using Cons.prems by simp
  show ?case
  proof (cases "JStr s \<in> seen")
    case True
    from Cons.IH [OF rest, of seen out] obtain added where
      r: "unique_loop ls seen out = Inr (out @ added)" and sub: "subseq added ls"
      and d: "distinct (map (\<lambda>l. subscript l ''name'') added)"
      and f: "\<forall>k. find (\<lambda>l. subscript l ''name'' = Inr k) added =
                  (if k \<in> seen then None else find (\<lambda>l. subscript l ''name'' = Inr k) ls)"
      by blast
    have "unique_loop (l # ls) seen out = Inr (out @ added)"
      using True nm r by simp
    moreover have "subseq added (l # ls)" using sub by (rule list_emb_Cons)
    moreover have "\<forall>k. find (\<lambda>l. subscript l ''name'' = Inr k) added =
                  (if k \<in> seen then None else find (\<lambda>l. subscript l ''name'' = Inr k) (l # ls))"
      using f True nm by auto
    ultimately show ?thesis using d by blast
  next
    case False
    from Cons.IH [OF rest, of "insert (JStr s) seen" "out @ [l]"] obtain added where
      r: "unique_loop ls (insert (JStr s) seen) (out @ [l]) = Inr ((out @ [l]) @ added)"
      and sub: "subseq added ls"
      and d: "distinct (map (\<lambda>l. subscript l ''name'') added)"
      and f: "\<forall>k. find (\<lambda>l. subscript l ''name'' = Inr k) added =
                  (if k \<in> insert (JStr s) seen then None
                   else find (\<lambda>l. subscript l ''name'' = Inr k) ls)"
      by blast
    have "unique_loop (l # ls) seen out = Inr (out @ (l # added))"
      using False nm r by simp
    moreover have "subseq (l # added) (l # ls)" using sub by simp
    moreover have "Inr (JStr s) \<notin> set (map (\<lambda>l. subscript l ''name'') added)"
    proof
      assume "Inr (JStr s) \<in> set (map (\<lambda>l. subscript l ''name'') added)"
      then obtain m where "m \<in> set added" "subscript m ''name'' = Inr (JStr s)" by auto
      then have "find (\<lambda>l. subscript l ''name'' = Inr (JStr s)) added \<noteq> None"
        by (auto simp add: find_None_iff)
      with f show False by simp
    qed
    then have "distinct (map (\<lambda>l. subscript l ''name'') (l # added))"
      using d nm by simp
    moreover have "\<forall>k. find (\<lambda>l. subscript l ''name'' = Inr k) (l # added) =
                  (if k \<in> seen then None else find (\<lambda>l. subscript l ''name'' = Inr k) (l # ls))"
      using f False nm by auto
    ultimately show ?thesis by blast
  qed
qed

text \<open>
  C5: when every fetched record is a \<^verbatim>\<open>dict\<close> whose \<^verbatim>\<open>name\<close> is a string, the loop
  returns a list that is a subsequence of the fetched list (records unchanged, in arrival
  order), in which no name occurs twice, and in which the record of each name is the first
  fetched record of that name: a later record of the same name is dropped whatever its
  other fields are.
\<close>

theorem unique_lockers_first_occurrence:
  assumes "\<forall>l \<in> set all_lockers. \<exists>s. subscript l ''name'' = Inr (JStr s)"
  shows "\<exists>unique. unique_lockers all_lockers = Inr unique \<and>
           subseq unique all_lockers \<and>
           distinct (map (\<lambda>l. subscript l ''name'') unique) \<and>
           (\<forall>name. find (\<lambda>l. subscript l ''name'' = Inr name) unique =
                     find (\<lambda>l. subscript l ''name'' = Inr name) all_lockers)"
  using unique_loop_first [OF assms, of "{}" "[]"]
  by (simp add: unique_lockers_def)

lemma locker_record_name: "subscript (locker_record n la lo) ''name'' = Inr (JStr n)"
  by (simp add: locker_record_def)

theorem unique_lockers_first_occurrence_witness:
  "subscript (locker_record ''Locker-A'' 50 19) ''name'' = Inr (JStr ''Locker-A'') \<and>
   subscript (locker_record ''Locker-B'' 51 20) ''name'' = Inr (JStr ''Locker-B'') \<and>
   subscript (locker_record ''Locker-A'' 52 21) ''name'' = Inr (JStr ''Locker-A'') \<and>
   unique_lockers [locker_record ''Locker-A'' 50 19, locker_record ''Locker-B'' 51 20,
                   locker_record ''Locker-A'' 52 21] =
     Inr [locker_record ''Locker-A'' 50 19, locker_record ''Locker-B'' 51 20]"
proof -
  let ?xs = "[locker_record ''Locker-A'' 50 19, locker_record ''Locker-B'' 51 20,
              locker_record ''Locker-A'' 52 21]"
  have h: "\<forall>l \<in> set ?xs. \<exists>s. subscript l ''name'' = Inr (JStr s)"
    by (simp add: locker_record_name)
  have e: "unique_lockers ?xs =
      Inr [locker_record ''Locker-A'' 50 19, locker_record ''Locker-B'' 51 20]"
    using unique_lockers_first_occurrence [OF h]
    by (simp add: unique_lockers_def locker_record_name)
  show ?thesis using e by (simp add: locker_record_name)
qed

end
